theory Spec2Isabelle
  imports Main "HOL-Library.Sublist" "HOL-Library.AList"
begin

section \<open>Data model (src/types/task.ts)\<close>

text \<open>
  Timestamps (\<^verbatim>\<open>Date\<close>) are milliseconds since the epoch, an \<open>int\<close>; an invalid
  \<^verbatim>\<open>Date\<close> is not modelled. A field of type \<^verbatim>\<open>T | null\<close> is a \<open>T option\<close> with
  \<open>None\<close> for \<^verbatim>\<open>null\<close>. The two optional keys of \<^verbatim>\<open>Task\<close> (\<^verbatim>\<open>assignedTo?\<close>,
  \<^verbatim>\<open>assignedToName?\<close>) carry one more \<open>option\<close>: \<open>None\<close> is the absent key.
  The field \<^verbatim>\<open>id\<close> is called \<open>task_id\<close>, since \<open>id\<close> is the identity function of HOL.
\<close>

datatype priority = High | Medium | Low

datatype task_status = Pending | Completed

datatype reminder_type = OnDue | OneDayBefore | OneHourBefore | Custom

record reminder =
  rem_id :: string
  rem_taskId :: string
  rem_time :: int
  rem_type :: reminder_type
  triggered :: bool
  snoozedUntil :: "int option"

record task =
  task_id :: string
  title :: string
  description :: string
  priority :: priority
  status :: task_status
  dueDate :: "int option"
  category :: string
  tags :: "string list"
  estimatedMinutes :: "int option"
  createdAt :: int
  completedAt :: "int option"
  reminders :: "reminder list"
  assignedTo :: "string option option"
  assignedToName :: "string option"

text \<open>
  \<^verbatim>\<open>Partial<Task>\<close>: every key may be absent (\<open>None\<close>). A key that is present is bound
  to a value of the field's type; a key bound to \<^verbatim>\<open>undefined\<close> is not modelled.
\<close>

record task_updates =
  u_id :: "string option"
  u_title :: "string option"
  u_description :: "string option"
  u_priority :: "priority option"
  u_status :: "task_status option"
  u_dueDate :: "int option option"
  u_category :: "string option"
  u_tags :: "string list option"
  u_estimatedMinutes :: "int option option"
  u_createdAt :: "int option"
  u_completedAt :: "int option option"
  u_reminders :: "reminder list option"
  u_assignedTo :: "string option option"
  u_assignedToName :: "string option"

text \<open>The object literal \<^verbatim>\<open>{}\<close>, from which the callers' literals are built.\<close>

definition no_updates :: task_updates where
  "no_updates = \<lparr>u_id = None, u_title = None, u_description = None, u_priority = None,
     u_status = None, u_dueDate = None, u_category = None, u_tags = None,
     u_estimatedMinutes = None, u_createdAt = None, u_completedAt = None,
     u_reminders = None, u_assignedTo = None, u_assignedToName = None\<rparr>"

text \<open>A \<^verbatim>\<open>Task\<close> passed where \<^verbatim>\<open>Partial<Task> | Task\<close> is expected: the same object.\<close>

definition of_Task :: "task \<Rightarrow> task_updates" where
  "of_Task t = \<lparr>u_id = Some (task_id t), u_title = Some (title t),
     u_description = Some (description t), u_priority = Some (priority t),
     u_status = Some (status t), u_dueDate = Some (dueDate t),
     u_category = Some (category t), u_tags = Some (tags t),
     u_estimatedMinutes = Some (estimatedMinutes t), u_createdAt = Some (createdAt t),
     u_completedAt = Some (completedAt t), u_reminders = Some (reminders t),
     u_assignedTo = assignedTo t, u_assignedToName = assignedToName t\<rparr>"

text \<open>
  The cast \<^verbatim>\<open>updates as Task\<close>. TypeScript does not check it: an object that lacks a
  required key of \<^verbatim>\<open>Task\<close> is not a \<^verbatim>\<open>Task\<close>, and the typed model has no value for
  it (\<open>None\<close>).
\<close>

definition as_Task :: "task_updates \<Rightarrow> task option" where
  "as_Task u =
     (if u_id u \<noteq> None \<and> u_title u \<noteq> None \<and> u_description u \<noteq> None \<and>
         u_priority u \<noteq> None \<and> u_status u \<noteq> None \<and> u_dueDate u \<noteq> None \<and>
         u_category u \<noteq> None \<and> u_tags u \<noteq> None \<and> u_estimatedMinutes u \<noteq> None \<and>
         u_createdAt u \<noteq> None \<and> u_completedAt u \<noteq> None \<and> u_reminders u \<noteq> None
      then Some \<lparr>task_id = the (u_id u), title = the (u_title u),
         description = the (u_description u), priority = the (u_priority u),
         status = the (u_status u), dueDate = the (u_dueDate u),
         category = the (u_category u), tags = the (u_tags u),
         estimatedMinutes = the (u_estimatedMinutes u), createdAt = the (u_createdAt u),
         completedAt = the (u_completedAt u), reminders = the (u_reminders u),
         assignedTo = u_assignedTo u, assignedToName = u_assignedToName u\<rparr>
      else None)"

text \<open>The spread \<^verbatim>\<open>{ ...task, ...updates }\<close>: a key of \<open>updates\<close> wins where it is present.\<close>

definition key_or :: "'a option \<Rightarrow> 'a \<Rightarrow> 'a" where
  "key_or k old = (case k of None \<Rightarrow> old | Some v \<Rightarrow> v)"

definition opt_key_or :: "'a option \<Rightarrow> 'a option \<Rightarrow> 'a option" where
  "opt_key_or k old = (case k of None \<Rightarrow> old | Some v \<Rightarrow> Some v)"

definition spread :: "task \<Rightarrow> task_updates \<Rightarrow> task" where
  "spread t u = \<lparr>task_id = key_or (u_id u) (task_id t), title = key_or (u_title u) (title t),
     description = key_or (u_description u) (description t),
     priority = key_or (u_priority u) (priority t),
     status = key_or (u_status u) (status t), dueDate = key_or (u_dueDate u) (dueDate t),
     category = key_or (u_category u) (category t), tags = key_or (u_tags u) (tags t),
     estimatedMinutes = key_or (u_estimatedMinutes u) (estimatedMinutes t),
     createdAt = key_or (u_createdAt u) (createdAt t),
     completedAt = key_or (u_completedAt u) (completedAt t),
     reminders = key_or (u_reminders u) (reminders t),
     assignedTo = opt_key_or (u_assignedTo u) (assignedTo t),
     assignedToName = opt_key_or (u_assignedToName u) (assignedToName t)\<rparr>"

section \<open>Local Task Cache (src/store/taskStore.ts)\<close>

datatype sort_by = SortDueDate | SortPriority | SortCreatedAt | SortTitle

datatype sort_order = Asc | Desc

text \<open>\<^verbatim>\<open>TaskFilters\<close>; the value \<^verbatim>\<open>'all'\<close> of \<^verbatim>\<open>FilterPriority\<close> and \<^verbatim>\<open>FilterStatus\<close> is \<open>None\<close>.\<close>

record task_filters =
  f_priority :: "priority option"
  f_status :: "task_status option"
  f_category :: string
  f_search :: string
  sortBy :: sort_by
  sortOrder :: sort_order

text \<open>
  The part of \<^verbatim>\<open>TaskStore\<close> that the task operations read and write (\<^verbatim>\<open>categories\<close> and
  \<^verbatim>\<open>isDarkMode\<close> are left out).
\<close>

record store =
  tasks :: "task list"
  filters :: task_filters
  isLoading :: bool
  isInitialized :: bool

definition setTasks :: "task list \<Rightarrow> store \<Rightarrow> store" where
  "setTasks ts s = s\<lparr>tasks := ts\<rparr>"

definition setLoading :: "bool \<Rightarrow> store \<Rightarrow> store" where
  "setLoading b s = s\<lparr>isLoading := b\<rparr>"

definition setInitialized :: "bool \<Rightarrow> store \<Rightarrow> store" where
  "setInitialized b s = s\<lparr>isInitialized := b\<rparr>"

definition addTaskOptimistic :: "task \<Rightarrow> store \<Rightarrow> store" where
  "addTaskOptimistic t s = s\<lparr>tasks := t # tasks s\<rparr>"

text \<open>
  The callback of \<^verbatim>\<open>state.tasks.map\<close> in \<^verbatim>\<open>updateTaskOptimistic\<close>, for a task whose id
  matches: an object with the keys \<^verbatim>\<open>id\<close>, \<^verbatim>\<open>title\<close> and \<^verbatim>\<open>createdAt\<close>
  (\<open>full_replacement\<close>) replaces the task, any other object is merged into it.
\<close>

definition full_replacement :: "task_updates \<Rightarrow> bool" where
  "full_replacement updates =
     (u_id updates \<noteq> None \<and> u_title updates \<noteq> None \<and> u_createdAt updates \<noteq> None)"

definition patch_entry :: "task_updates \<Rightarrow> task \<Rightarrow> task option" where
  "patch_entry updates t =
     (if full_replacement updates then as_Task updates else Some (spread t updates))"

text \<open>
  \<open>None\<close> is returned where the cast would put an object that is not a \<^verbatim>\<open>Task\<close> in
  the list; the source does not fail there.
\<close>

definition updateTaskOptimistic :: "string \<Rightarrow> task_updates \<Rightarrow> store \<Rightarrow> store option" where
  "updateTaskOptimistic i updates s =
     map_option (\<lambda>ts. s\<lparr>tasks := ts\<rparr>)
       (those (map (\<lambda>t. if task_id t = i then patch_entry updates t else Some t) (tasks s)))"

definition deleteTaskOptimistic :: "string \<Rightarrow> store \<Rightarrow> store" where
  "deleteTaskOptimistic i s = s\<lparr>tasks := filter (\<lambda>t. task_id t \<noteq> i) (tasks s)\<rparr>"

text \<open>
  JavaScript numbers, as far as the sort comparator needs them: the difference of two
  timestamps is exact in a double, and \<^verbatim>\<open>Infinity - Infinity\<close> is \<^verbatim>\<open>NaN\<close>.
\<close>

datatype jsnum = Num int | PosInf | NegInf | NaN

fun js_sub :: "jsnum \<Rightarrow> jsnum \<Rightarrow> jsnum" where
  "js_sub NaN _ = NaN"
| "js_sub _ NaN = NaN"
| "js_sub (Num a) (Num b) = Num (a - b)"
| "js_sub (Num a) PosInf = NegInf"
| "js_sub (Num a) NegInf = PosInf"
| "js_sub PosInf PosInf = NaN"
| "js_sub PosInf _ = PosInf"
| "js_sub NegInf NegInf = NaN"
| "js_sub NegInf _ = NegInf"

fun js_neg :: "jsnum \<Rightarrow> jsnum" where
  "js_neg (Num a) = Num (- a)"
| "js_neg PosInf = NegInf"
| "js_neg NegInf = PosInf"
| "js_neg NaN = NaN"

text \<open>
  \<^verbatim>\<open>Array.prototype.sort(comparefn)\<close>. ECMAScript reads a \<^verbatim>\<open>NaN\<close> result of the
  comparator as \<open>+0\<close>, and requires the sort to be stable. The order of the
  comparisons is left to the implementation; for a consistent comparator every
  conforming implementation returns the list that stable insertion returns, which is the
  model here. \<open>js_gt0 v\<close> is \<open>v > 0\<close> after that reading of \<^verbatim>\<open>NaN\<close>.
\<close>

fun js_gt0 :: "jsnum \<Rightarrow> bool" where
  "js_gt0 (Num a) = (0 < a)"
| "js_gt0 PosInf = True"
| "js_gt0 NegInf = False"
| "js_gt0 NaN = False"

fun sort_insert :: "('a \<Rightarrow> 'a \<Rightarrow> jsnum) \<Rightarrow> 'a \<Rightarrow> 'a list \<Rightarrow> 'a list" where
  "sort_insert cmp x [] = [x]"
| "sort_insert cmp x (y # ys) =
     (if js_gt0 (cmp x y) then y # sort_insert cmp x ys else x # y # ys)"

definition array_sort :: "('a \<Rightarrow> 'a \<Rightarrow> jsnum) \<Rightarrow> 'a list \<Rightarrow> 'a list" where
  "array_sort cmp xs = foldr (sort_insert cmp) xs []"

text \<open>\<^verbatim>\<open>a.dueDate ? new Date(a.dueDate).getTime() : Infinity\<close>\<close>

definition due_time :: "task \<Rightarrow> jsnum" where
  "due_time t = (case dueDate t of None \<Rightarrow> PosInf | Some d \<Rightarrow> Num d)"

fun priorityOrder :: "priority \<Rightarrow> int" where
  "priorityOrder High = 0"
| "priorityOrder Medium = 1"
| "priorityOrder Low = 2"

text \<open>
  The comparator of \<^verbatim>\<open>filtered.sort\<close>. \<^verbatim>\<open>String.prototype.localeCompare\<close> depends on
  the runtime's locale and is a parameter.
\<close>

definition compare_tasks ::
    "(string \<Rightarrow> string \<Rightarrow> int) \<Rightarrow> task_filters \<Rightarrow> task \<Rightarrow> task \<Rightarrow> jsnum" where
  "compare_tasks localeCompare f a b =
     (let comparison =
        (case sortBy f of
           SortDueDate \<Rightarrow> js_sub (due_time a) (due_time b)
         | SortPriority \<Rightarrow> Num (priorityOrder (priority a) - priorityOrder (priority b))
         | SortCreatedAt \<Rightarrow> Num (createdAt b - createdAt a)
         | SortTitle \<Rightarrow> Num (localeCompare (title a) (title b)))
      in if sortOrder f = Asc then comparison else js_neg comparison)"

text \<open>
  The order by due date in which \<^verbatim>\<open>null\<close> is the greatest value, to state the result
  of the sort with.
\<close>

definition due_le :: "task \<Rightarrow> task \<Rightarrow> bool" where
  "due_le a b =
     (case dueDate b of
        None \<Rightarrow> True
      | Some y \<Rightarrow> (case dueDate a of None \<Rightarrow> False | Some x \<Rightarrow> x \<le> y))"

text \<open>
  \<^verbatim>\<open>getFilteredTasks\<close>. \<^verbatim>\<open>String.prototype.toLowerCase\<close> is a parameter as well;
  \<^verbatim>\<open>includes\<close> is the contiguous-sublist test.
\<close>

definition getFilteredTasks ::
    "(string \<Rightarrow> string) \<Rightarrow> (string \<Rightarrow> string \<Rightarrow> int) \<Rightarrow> store \<Rightarrow> task list" where
  "getFilteredTasks toLowerCase localeCompare s =
     (let f = filters s;
          by_priority = (if f_priority f \<noteq> None
             then filter (\<lambda>t. Some (priority t) = f_priority f) (tasks s) else tasks s);
          by_status = (if f_status f \<noteq> None
             then filter (\<lambda>t. Some (status t) = f_status f) by_priority else by_priority);
          by_category = (if f_category f \<noteq> ''all''
             then filter (\<lambda>t. category t = f_category f) by_status else by_status);
          by_search = (if f_search f \<noteq> []
             then (let search = toLowerCase (f_search f)
                   in filter (\<lambda>t. sublist search (toLowerCase (title t)) \<or>
                                   sublist search (toLowerCase (description t)) \<or>
                                   list_ex (\<lambda>tag. sublist search (toLowerCase tag)) (tags t))
                        by_category)
             else by_category)
      in array_sort (compare_tasks localeCompare f) by_search)"

section \<open>Sync Coordinator (the hook useTasks)\<close>

text \<open>
  A row of the table \<^verbatim>\<open>tasks\<close> as the Remote Store returns it, typed by the migration
  (\<^verbatim>\<open>NOT NULL\<close> columns are total); \<^verbatim>\<open>assigned_to\<close> is nullable. Timestamps are
  milliseconds, as the \<^verbatim>\<open>Date\<close> made from them.
\<close>

record db_row =
  row_id :: string
  row_title :: string
  row_description :: string
  row_priority :: priority
  row_status :: task_status
  row_due_date :: "int option"
  row_category :: string
  row_tags :: "string list"
  row_estimated_minutes :: "int option"
  row_created_at :: int
  row_completed_at :: "int option"
  row_assigned_to :: "string option"

record profile =
  prof_id :: string
  display_name :: "string option"
  email :: "string option"

text \<open>\<^verbatim>\<open>s || d\<close> on strings: the empty string is falsy.\<close>

definition str_or :: "string \<Rightarrow> string \<Rightarrow> string" where
  "str_or s d = (if s = [] then d else s)"

text \<open>\<^verbatim>\<open>x || null\<close> on a string that may be \<^verbatim>\<open>null\<close> or \<^verbatim>\<open>undefined\<close>.\<close>

definition truthy_str :: "string option \<Rightarrow> string option" where
  "truthy_str x = (case x of None \<Rightarrow> None | Some a \<Rightarrow> if a = [] then None else Some a)"

text \<open>
  \<^verbatim>\<open>dbToTask\<close>. The key \<^verbatim>\<open>assignedToName\<close> bound to \<^verbatim>\<open>undefined\<close> reads as the absent
  key; the result is only ever used as a whole task.
\<close>

definition dbToTask :: "db_row \<Rightarrow> string option \<Rightarrow> task" where
  "dbToTask row assigneeName =
     \<lparr>task_id = row_id row, title = row_title row,
      description = str_or (row_description row) [],
      priority = row_priority row, status = row_status row,
      dueDate = row_due_date row,
      category = str_or (row_category row) ''Personal'',
      tags = row_tags row, estimatedMinutes = row_estimated_minutes row,
      createdAt = row_created_at row, completedAt = row_completed_at row,
      reminders = [],
      assignedTo = Some (truthy_str (row_assigned_to row)),
      assignedToName = assigneeName\<rparr>"

text \<open>\<^verbatim>\<open>email?.split('@')[0]\<close>\<close>

definition email_local :: "string option \<Rightarrow> string option" where
  "email_local e = map_option (takeWhile (\<lambda>c. c \<noteq> CHR ''@'')) e"

text \<open>\<^verbatim>\<open>profile?.display_name || profile?.email?.split('@')[0]\<close>\<close>

definition assignee_name :: "profile option \<Rightarrow> string option" where
  "assignee_name p =
     (case p of None \<Rightarrow> None
      | Some pr \<Rightarrow> (case truthy_str (display_name pr) of
                     Some n \<Rightarrow> Some n
                   | None \<Rightarrow> email_local (email pr)))"

text \<open>
  The argument of \<^verbatim>\<open>addTask\<close>. Its declared type omits \<^verbatim>\<open>reminders\<close>, but the form
  (\<^verbatim>\<open>TaskForm.handleSubmit\<close>) passes that key too, so it is kept here, optional.
\<close>

record task_data =
  d_title :: string
  d_description :: string
  d_priority :: priority
  d_dueDate :: "int option"
  d_category :: string
  d_tags :: "string list"
  d_estimatedMinutes :: "int option"
  d_assignedTo :: "string option option"
  d_assignedToName :: "string option"
  d_reminders :: "reminder list option"

text \<open>The requests to the Remote Store, with what they carry.\<close>

record task_insert =
  ins_user_id :: string
  ins_title :: string
  ins_description :: string
  ins_priority :: priority
  ins_status :: task_status
  ins_due_date :: "int option"
  ins_category :: string
  ins_tags :: "string list"
  ins_estimated_minutes :: "int option"
  ins_assigned_to :: "string option"

record db_updates =
  upd_title :: "string option"
  upd_description :: "string option"
  upd_priority :: "priority option"
  upd_status :: "task_status option"
  upd_due_date :: "int option option"
  upd_category :: "string option"
  upd_tags :: "string list option"
  upd_estimated_minutes :: "int option option"
  upd_completed_at :: "int option option"
  upd_assigned_to :: "string option option"

datatype request =
    InsertTask task_insert
  | SelectProfile string
  | UpdateTask string db_updates
  | DeleteTask string

text \<open>The \<^verbatim>\<open>{ data, error }\<close> of a request: an error, thrown by the caller, or the data.\<close>

datatype 'a response = Failed string | Ok 'a

text \<open>
  The three mutations run here without another operation between the optimistic apply
  and the reconciliation. \<^verbatim>\<open>crypto.randomUUID()\<close> and \<^verbatim>\<open>new Date()\<close> are the
  parameters \<open>uuid\<close> and \<open>now\<close>, the outcome of the request is \<open>resp\<close>. Each
  returns the function's return value, the requests it has sent and the new store; the
  notices for the user (\<^verbatim>\<open>toast\<close>, \<^verbatim>\<open>console.error\<close>) are left out.
\<close>

definition optimisticTask :: "string \<Rightarrow> int \<Rightarrow> task_data \<Rightarrow> task" where
  "optimisticTask uuid now taskData =
     \<lparr>task_id = uuid, title = d_title taskData, description = d_description taskData,
      priority = d_priority taskData, status = Pending, dueDate = d_dueDate taskData,
      category = d_category taskData, tags = d_tags taskData,
      estimatedMinutes = d_estimatedMinutes taskData, createdAt = now, completedAt = None,
      reminders = [],
      assignedTo = d_assignedTo taskData, assignedToName = d_assignedToName taskData\<rparr>"

definition insert_of :: "string \<Rightarrow> task_data \<Rightarrow> task_insert" where
  "insert_of uid taskData =
     \<lparr>ins_user_id = uid, ins_title = d_title taskData,
      ins_description = str_or (d_description taskData) [],
      ins_priority = d_priority taskData, ins_status = Pending,
      ins_due_date = d_dueDate taskData, ins_category = d_category taskData,
      ins_tags = d_tags taskData, ins_estimated_minutes = d_estimatedMinutes taskData,
      ins_assigned_to =
        (case d_assignedTo taskData of None \<Rightarrow> None | Some a \<Rightarrow> truthy_str a)\<rparr>"

text \<open>The block of \<^verbatim>\<open>addTask\<close> that looks the assignee's name up, when there is one.\<close>

definition assignee_of :: "db_row \<Rightarrow> profile option \<Rightarrow> string option" where
  "assignee_of data prof =
     (if truthy_str (row_assigned_to data) \<noteq> None then assignee_name prof else None)"

definition addTask ::
    "string option \<Rightarrow> string \<Rightarrow> int \<Rightarrow> task_data \<Rightarrow> db_row response \<Rightarrow> profile option \<Rightarrow> store
      \<Rightarrow> (task option \<times> request list \<times> store) option" where
  "addTask user uuid now taskData resp prof s =
     (case user of
        None \<Rightarrow> Some (None, [], s)
      | Some uid \<Rightarrow>
          (let opt = optimisticTask uuid now taskData;
               s1 = addTaskOptimistic opt s;
               req = InsertTask (insert_of uid taskData)
           in case resp of
                Failed e \<Rightarrow> Some (None, [req], deleteTaskOptimistic (task_id opt) s1)
              | Ok data \<Rightarrow>
                  (let assigneeName = assignee_of data prof;
                       reqs = (case truthy_str (row_assigned_to data) of
                                 None \<Rightarrow> [req]
                               | Some a \<Rightarrow> [req, SelectProfile a]);
                       realTask = dbToTask data assigneeName
                   in map_option (\<lambda>s2. (Some realTask, reqs, s2))
                        (updateTaskOptimistic (task_id opt) (of_Task realTask) s1))))"

definition dbUpdates :: "task_updates \<Rightarrow> db_updates" where
  "dbUpdates updates =
     \<lparr>upd_title = u_title updates, upd_description = u_description updates,
      upd_priority = u_priority updates, upd_status = u_status updates,
      upd_due_date = u_dueDate updates, upd_category = u_category updates,
      upd_tags = u_tags updates, upd_estimated_minutes = u_estimatedMinutes updates,
      upd_completed_at = u_completedAt updates, upd_assigned_to = u_assignedTo updates\<rparr>"

definition updateTask ::
    "string option \<Rightarrow> unit response \<Rightarrow> string \<Rightarrow> task_updates \<Rightarrow> store
      \<Rightarrow> (bool \<times> request list \<times> store) option" where
  "updateTask user resp i updates s =
     (case user of
        None \<Rightarrow> Some (False, [], s)
      | Some uid \<Rightarrow>
          (case find (\<lambda>t. task_id t = i) (tasks s) of
             None \<Rightarrow> Some (False, [], s)
           | Some originalTask \<Rightarrow>
               (case updateTaskOptimistic i updates s of
                  None \<Rightarrow> None
                | Some s1 \<Rightarrow>
                    (case resp of
                       Ok _ \<Rightarrow> Some (True, [UpdateTask i (dbUpdates updates)], s1)
                     | Failed e \<Rightarrow>
                         map_option (\<lambda>s2. (False, [UpdateTask i (dbUpdates updates)], s2))
                           (updateTaskOptimistic i (of_Task originalTask) s1)))))"

definition deleteTask ::
    "string option \<Rightarrow> unit response \<Rightarrow> string \<Rightarrow> store \<Rightarrow> bool \<times> request list \<times> store" where
  "deleteTask user resp i s =
     (case user of
        None \<Rightarrow> (False, [], s)
      | Some uid \<Rightarrow>
          (let originalTask = find (\<lambda>t. task_id t = i) (tasks s);
               s1 = deleteTaskOptimistic i s
           in case resp of
                Ok _ \<Rightarrow> (True, [DeleteTask i], s1)
              | Failed e \<Rightarrow>
                  (False, [DeleteTask i],
                   case originalTask of None \<Rightarrow> s1 | Some t \<Rightarrow> addTaskOptimistic t s1)))"

text \<open>The object literal \<^verbatim>\<open>{ status: newStatus, completedAt }\<close>.\<close>

definition status_patch :: "task_status \<Rightarrow> int option \<Rightarrow> task_updates" where
  "status_patch newStatus completed =
     no_updates\<lparr>u_status := Some newStatus, u_completedAt := Some completed\<rparr>"

definition toggleTaskStatus ::
    "string option \<Rightarrow> unit response \<Rightarrow> int \<Rightarrow> string \<Rightarrow> store
      \<Rightarrow> (bool \<times> request list \<times> store) option" where
  "toggleTaskStatus user resp now i s =
     (case find (\<lambda>t. task_id t = i) (tasks s) of
        None \<Rightarrow> Some (False, [], s)
      | Some t \<Rightarrow>
          (let newStatus = (if status t = Pending then Completed else Pending);
               completed = (if newStatus = Completed then Some now else None)
           in updateTask user resp i (status_patch newStatus completed) s))"

text \<open>
  The invariant of the data model: \<^verbatim>\<open>completedAt\<close> is not \<^verbatim>\<open>null\<close> exactly when the
  status is \<^verbatim>\<open>completed\<close>; the same for a row of the Remote Store, and what an update
  object must carry to keep it, neither of the two keys or both in agreement.
\<close>

definition completedAt_inv :: "task \<Rightarrow> bool" where
  "completedAt_inv t = ((completedAt t \<noteq> None) = (status t = Completed))"

definition row_inv :: "db_row \<Rightarrow> bool" where
  "row_inv row = ((row_completed_at row \<noteq> None) = (row_status row = Completed))"

definition patch_agrees :: "task_updates \<Rightarrow> bool" where
  "patch_agrees u =
     (case (u_status u, u_completedAt u) of
        (None, None) \<Rightarrow> True
      | (Some st, Some c) \<Rightarrow> (c \<noteq> None) = (st = Completed)
      | _ \<Rightarrow> False)"

text \<open>
  \<^verbatim>\<open>fetchTasks\<close>, the full reload: \<open>resp\<close> answers the select of the tasks,
  \<open>profiles\<close> the select of the profiles (\<^verbatim>\<open>null\<close> is the empty list). A later pair
  of \<^verbatim>\<open>new Map(pairs)\<close> overwrites an earlier one with the same key.
\<close>

definition profile_label :: "profile \<Rightarrow> string" where
  "profile_label p =
     (case truthy_str (display_name p) of
        Some n \<Rightarrow> n
      | None \<Rightarrow> (case truthy_str (email_local (email p)) of
                   Some e \<Rightarrow> e
                 | None \<Rightarrow> ''Unknown''))"

definition fetchTasks ::
    "string option \<Rightarrow> db_row list response \<Rightarrow> profile list \<Rightarrow> store \<Rightarrow> store" where
  "fetchTasks user resp profiles s =
     (case user of
        None \<Rightarrow> setLoading False (setTasks [] s)
      | Some uid \<Rightarrow>
          (let s1 = setLoading True s
           in case resp of
                Failed e \<Rightarrow> setInitialized True (setLoading False s1)
              | Ok rows \<Rightarrow>
                  (let profileMap = map_of (rev (map (\<lambda>p. (prof_id p, profile_label p)) profiles));
                       ts = map (\<lambda>row. dbToTask row
                                 (case truthy_str (row_assigned_to row) of
                                    None \<Rightarrow> None
                                  | Some a \<Rightarrow> profileMap a)) rows
                   in setInitialized True (setLoading False (setTasks ts s1)))))"

text \<open>
  The two halves of \<^verbatim>\<open>addTask\<close> and the second half of \<^verbatim>\<open>updateTask\<close>, for a
  signed-in user. The source awaits the Remote Store between the optimistic apply and
  the reconciliation, and the cache can change meanwhile: the entry that the optimistic
  insert shows mounts a \<^verbatim>\<open>TaskCard\<close> (\<^verbatim>\<open>TaskList\<close> keys the cards by the task id),
  whose \<^verbatim>\<open>useTasks\<close> runs the effect that starts \<^verbatim>\<open>fetchTasks\<close>, and nothing orders
  the reload and the request of the mutation. The second half runs on the store as it
  is when the response has arrived (for \<^verbatim>\<open>addTask\<close>, the answer of the assignee lookup
  too). The first half of \<^verbatim>\<open>updateTask\<close> is \<^verbatim>\<open>updateTaskOptimistic\<close> itself, after the
  snapshot \<open>originalTask\<close> has been taken. A reload that lands in between is
  \<^verbatim>\<open>fetchTasks\<close> at the moment its response is handled; the \<^verbatim>\<open>setLoading(true)\<close> at
  its start changes no task.
\<close>

definition addTask_apply :: "string \<Rightarrow> int \<Rightarrow> task_data \<Rightarrow> store \<Rightarrow> store" where
  "addTask_apply uuid now taskData s = addTaskOptimistic (optimisticTask uuid now taskData) s"

definition addTask_settle ::
    "string \<Rightarrow> db_row response \<Rightarrow> profile option \<Rightarrow> store \<Rightarrow> (task option \<times> store) option" where
  "addTask_settle uuid resp prof s =
     (case resp of
        Failed e \<Rightarrow> Some (None, deleteTaskOptimistic uuid s)
      | Ok data \<Rightarrow>
          (let realTask = dbToTask data (assignee_of data prof)
           in map_option (\<lambda>s2. (Some realTask, s2))
                (updateTaskOptimistic uuid (of_Task realTask) s)))"


section \<open>Reminder Scheduler (the hook useNotifications)\<close>

record active_reminder =
  ar_id :: string
  ar_taskId :: string
  taskTitle :: string
  reminderTime :: int
  snoozeCount :: nat

datatype permission = Granted | Denied | Default

text \<open>
  What the hook shows: a toast, and a desktop notification with its tag. The texts are
  fixed by the kind of notice; only their variable parts are kept.
\<close>

datatype toast =
    TaskReminderToast string
  | SnoozedReminderToast string nat
  | ReminderSnoozedToast
  | ReminderDismissedToast

datatype notification =
    TaskReminderNotification string string
  | SnoozedReminderNotification string nat string

text \<open>
  A pending timeout of \<^verbatim>\<open>setTimeout\<close>: its handle, the time at which it elapses, and
  what its callback has captured (the active reminder \<^verbatim>\<open>r\<close> and \<^verbatim>\<open>newSnoozeCount\<close>).
\<close>

record timer =
  handle :: nat
  elapses :: int
  captured :: active_reminder
  capturedCount :: nat

text \<open>
  The state of the hook together with the store it reads and writes.
  \<open>snoozeIntervals\<close> is the \<^verbatim>\<open>Map\<close> of \<^verbatim>\<open>snoozeIntervalsRef\<close>, \<open>timers\<close> the
  timeouts of the runtime that have neither elapsed nor been cleared, \<open>nextHandle\<close> the
  handle that the next \<^verbatim>\<open>setTimeout\<close> returns (handles are positive numbers in a
  browser, and \<^verbatim>\<open>if (existingInterval)\<close> tests for that).
\<close>

record world =
  taskStore :: store
  permission :: permission
  activeReminders :: "active_reminder list"
  snoozeIntervals :: "(string \<times> nat) list"
  timers :: "timer list"
  nextHandle :: nat
  toasts :: "toast list"
  desktop :: "notification list"

text \<open>The ids of the Active Reminder set.\<close>

definition active_ids :: "world \<Rightarrow> string set" where
  "active_ids w = ar_id ` set (activeReminders w)"

definition showNotification :: "notification \<Rightarrow> world \<Rightarrow> world" where
  "showNotification n w =
     (if permission w \<noteq> Granted then w else w\<lparr>desktop := desktop w @ [n]\<rparr>)"

definition show_toast :: "toast \<Rightarrow> world \<Rightarrow> world" where
  "show_toast t w = w\<lparr>toasts := toasts w @ [t]\<rparr>"

definition clearTimeout :: "nat \<Rightarrow> world \<Rightarrow> world" where
  "clearTimeout h w = w\<lparr>timers := filter (\<lambda>t. handle t \<noteq> h) (timers w)\<rparr>"

definition setTimeout :: "int \<Rightarrow> active_reminder \<Rightarrow> nat \<Rightarrow> world \<Rightarrow> nat \<times> world" where
  "setTimeout at r n w =
     (nextHandle w,
      w\<lparr>timers := timers w @
           [\<lparr>handle = nextHandle w, elapses = at, captured = r, capturedCount = n\<rparr>],
        nextHandle := Suc (nextHandle w)\<rparr>)"

text \<open>
  \<^verbatim>\<open>triggerReminder(task, reminder)\<close>: \<open>t\<close> is the task object that the caller holds,
  whose \<^verbatim>\<open>reminders\<close> are mapped and written back to the store.
\<close>

definition mark_triggered :: "string \<Rightarrow> reminder list \<Rightarrow> reminder list" where
  "mark_triggered rid rs = map (\<lambda>r. if rem_id r = rid then r\<lparr>triggered := True\<rparr> else r) rs"

definition triggerReminder :: "task \<Rightarrow> reminder \<Rightarrow> world \<Rightarrow> world option" where
  "triggerReminder t reminder w =
     (let activeReminder = \<lparr>ar_id = rem_id reminder, ar_taskId = task_id t,
            taskTitle = title t, reminderTime = rem_time reminder, snoozeCount = 0\<rparr>;
          w1 = w\<lparr>activeReminders :=
                 (if list_ex (\<lambda>r. ar_id r = rem_id reminder) (activeReminders w)
                  then activeReminders w else activeReminders w @ [activeReminder])\<rparr>;
          w2 = showNotification (TaskReminderNotification (title t) (task_id t)) w1;
          w3 = show_toast (TaskReminderToast (title t)) w2;
          updatedReminders = mark_triggered (rem_id reminder) (reminders t)
      in map_option (\<lambda>s. w3\<lparr>taskStore := s\<rparr>)
           (updateTaskOptimistic (task_id t)
              (no_updates\<lparr>u_reminders := Some updatedReminders\<rparr>) (taskStore w3)))"

text \<open>
  \<^verbatim>\<open>checkReminders\<close>: the two nested \<^verbatim>\<open>forEach\<close> run over \<^verbatim>\<open>tasks\<close>, the list that the
  hook read from the store when the callback was made, here the store's list at the
  start of the scan.
\<close>

fun check_reminders_of :: "int \<Rightarrow> task \<Rightarrow> reminder list \<Rightarrow> world \<Rightarrow> world option" where
  "check_reminders_of now t [] w = Some w"
| "check_reminders_of now t (reminder # rs) w =
     (if triggered reminder then check_reminders_of now t rs w
      else if rem_time reminder \<le> now \<and> rem_time reminder > now - 60000
      then (case triggerReminder t reminder w of
              None \<Rightarrow> None
            | Some w' \<Rightarrow> check_reminders_of now t rs w')
      else check_reminders_of now t rs w)"

fun check_tasks :: "int \<Rightarrow> task list \<Rightarrow> world \<Rightarrow> world option" where
  "check_tasks now [] w = Some w"
| "check_tasks now (t # ts) w =
     (if status t = Completed then check_tasks now ts w
      else (case check_reminders_of now t (reminders t) w of
              None \<Rightarrow> None
            | Some w' \<Rightarrow> check_tasks now ts w'))"

definition checkReminders :: "int \<Rightarrow> world \<Rightarrow> world option" where
  "checkReminders now w = check_tasks now (tasks (taskStore w)) w"

text \<open>
  The scan in the words of the specification, to compare \<open>checkReminders\<close> with: a
  reminder is due to fire when its task is not completed, it has not been triggered, and
  its time lies in the trailing window of sixty seconds; the scan fires the due reminders
  of the cache, task by task, each by one call of \<^verbatim>\<open>triggerReminder\<close>.
\<close>

definition due_to_fire :: "int \<Rightarrow> task \<Rightarrow> reminder \<Rightarrow> bool" where
  "due_to_fire now t r =
     (status t \<noteq> Completed \<and> \<not> triggered r \<and> now - 60000 < rem_time r \<and> rem_time r \<le> now)"

definition fires_by_spec :: "int \<Rightarrow> task list \<Rightarrow> (task \<times> reminder) list" where
  "fires_by_spec now ts =
     concat (map (\<lambda>t. map (Pair t) (filter (due_to_fire now t) (reminders t))) ts)"

fun trigger_all :: "(task \<times> reminder) list \<Rightarrow> world \<Rightarrow> world option" where
  "trigger_all [] w = Some w"
| "trigger_all ((t, reminder) # rest) w =
     (case triggerReminder t reminder w of
        None \<Rightarrow> None
      | Some w' \<Rightarrow> trigger_all rest w')"

text \<open>
  \<^verbatim>\<open>snoozeReminder\<close>: the updater maps over the active reminders; for the one snoozed it
  clears the timeout registered for the id, sets a new one of five minutes and registers
  it. The updater runs once, at the call, and \<open>now\<close> is the time of the call.
\<close>

definition clear_existing :: "string \<Rightarrow> world \<Rightarrow> world" where
  "clear_existing reminderId w =
     (case map_of (snoozeIntervals w) reminderId of
        None \<Rightarrow> w
      | Some existingInterval \<Rightarrow>
          if existingInterval \<noteq> 0 then clearTimeout existingInterval w else w)"

definition snooze_entry :: "int \<Rightarrow> string \<Rightarrow> active_reminder \<Rightarrow> world \<Rightarrow> active_reminder \<times> world" where
  "snooze_entry now reminderId r w =
     (if ar_id r = reminderId then
        (let newSnoozeCount = snoozeCount r + 1;
             w1 = clear_existing reminderId w;
             (snoozeTimeout, w2) = setTimeout (now + 5 * 60 * 1000) r newSnoozeCount w1;
             w3 = w2\<lparr>snoozeIntervals :=
                      AList.update reminderId snoozeTimeout (snoozeIntervals w2)\<rparr>;
             w4 = show_toast ReminderSnoozedToast w3
         in (r\<lparr>snoozeCount := newSnoozeCount\<rparr>, w4))
      else (r, w))"

fun snooze_map :: "int \<Rightarrow> string \<Rightarrow> active_reminder list \<Rightarrow> world \<Rightarrow> active_reminder list \<times> world" where
  "snooze_map now reminderId [] w = ([], w)"
| "snooze_map now reminderId (r # rs) w =
     (let (r', w') = snooze_entry now reminderId r w;
          (rs', w'') = snooze_map now reminderId rs w'
      in (r' # rs', w''))"

definition snoozeReminder :: "int \<Rightarrow> string \<Rightarrow> world \<Rightarrow> world" where
  "snoozeReminder now reminderId w =
     (let (rs, w') = snooze_map now reminderId (activeReminders w) w
      in w'\<lparr>activeReminders := rs\<rparr>)"

text \<open>What the updater makes of an entry: \<^verbatim>\<open>{ ...r, snoozeCount: newSnoozeCount }\<close> for the one snoozed.\<close>

definition bump :: "string \<Rightarrow> active_reminder \<Rightarrow> active_reminder" where
  "bump reminderId r = (if ar_id r = reminderId then r\<lparr>snoozeCount := snoozeCount r + 1\<rparr> else r)"

definition dismissReminder :: "string \<Rightarrow> world \<Rightarrow> world" where
  "dismissReminder reminderId w =
     (let w1 = (case map_of (snoozeIntervals w) reminderId of
                  None \<Rightarrow> w
                | Some existing \<Rightarrow>
                    if existing \<noteq> 0
                    then (clearTimeout existing w)
                           \<lparr>snoozeIntervals := AList.delete reminderId (snoozeIntervals w)\<rparr>
                    else w);
          w2 = w1\<lparr>activeReminders := filter (\<lambda>r. ar_id r \<noteq> reminderId) (activeReminders w1)\<rparr>
      in show_toast ReminderDismissedToast w2)"

text \<open>
  The pending timeouts whose callback is for a given reminder, and the state of the
  timeouts that the hook keeps: handles are positive and have been handed out, no two
  pending timeouts share one, and every pending timeout is the one registered in
  \<open>snoozeIntervals\<close> for its reminder.
\<close>

definition timers_for :: "string \<Rightarrow> world \<Rightarrow> timer list" where
  "timers_for reminderId w = filter (\<lambda>t. ar_id (captured t) = reminderId) (timers w)"

definition timers_ok :: "world \<Rightarrow> bool" where
  "timers_ok w =
     (0 < nextHandle w \<and> distinct (map handle (timers w)) \<and>
      list_all (\<lambda>t. 0 < handle t \<and> handle t < nextHandle w \<and>
                  map_of (snoozeIntervals w) (ar_id (captured t)) = Some (handle t))
        (timers w) \<and>
      list_all (\<lambda>p. snd p < nextHandle w) (snoozeIntervals w))"

text \<open>The callback of the snooze timeout, run by the runtime when the timeout elapses.\<close>

definition timeout_elapsed :: "timer \<Rightarrow> world \<Rightarrow> world" where
  "timeout_elapsed t w =
     (let w1 = w\<lparr>timers := filter (\<lambda>x. handle x \<noteq> handle t) (timers w)\<rparr>;
          w2 = showNotification
                 (SnoozedReminderNotification (taskTitle (captured t)) (capturedCount t)
                    (ar_taskId (captured t))) w1
      in show_toast (SnoozedReminderToast (taskTitle (captured t)) (capturedCount t)) w2)"

section \<open>Values used in the examples\<close>

definition defaultFilters :: task_filters where
  "defaultFilters = \<lparr>f_priority = None, f_status = None, f_category = ''all'',
     f_search = [], sortBy = SortDueDate, sortOrder = Asc\<rparr>"

definition task_A :: task where
  "task_A = \<lparr>task_id = ''t1'', title = ''A'', description = [], priority = Medium,
     status = Pending, dueDate = Some 5000, category = ''Work'', tags = [],
     estimatedMinutes = None, createdAt = 1000, completedAt = None, reminders = [],
     assignedTo = Some None, assignedToName = None\<rparr>"

definition task_A_done :: task where
  "task_A_done = task_A\<lparr>status := Completed, completedAt := Some 3000\<rparr>"

definition task_N :: task where
  "task_N = task_A\<lparr>task_id := ''t2'', title := ''N'', dueDate := None\<rparr>"

text \<open>Stand-ins for the two functions of the runtime, which the due-date sort does not call.\<close>

definition same_case :: "string \<Rightarrow> string" where
  "same_case x = x"

definition no_collation :: "string \<Rightarrow> string \<Rightarrow> int" where
  "no_collation a b = 0"

definition store_A :: store where
  "store_A = \<lparr>tasks = [task_A], filters = defaultFilters, isLoading = False,
     isInitialized = True\<rparr>"

text \<open>
  Reminders of the task \<open>t1\<close> for a scan at the time 100000: two that are thirty
  seconds old, one that is ninety seconds old, one that is ten seconds ahead.
\<close>

definition rem_1 :: reminder where
  "rem_1 = \<lparr>rem_id = ''r1'', rem_taskId = ''t1'', rem_time = 70000, rem_type = OneHourBefore,
     triggered = False, snoozedUntil = None\<rparr>"

definition rem_2 :: reminder where
  "rem_2 = \<lparr>rem_id = ''r2'', rem_taskId = ''t1'', rem_time = 70000, rem_type = OneHourBefore,
     triggered = False, snoozedUntil = None\<rparr>"

definition rem_old :: reminder where
  "rem_old = \<lparr>rem_id = ''r3'', rem_taskId = ''t1'', rem_time = 10000, rem_type = OneDayBefore,
     triggered = False, snoozedUntil = None\<rparr>"

definition rem_ahead :: reminder where
  "rem_ahead = \<lparr>rem_id = ''r4'', rem_taskId = ''t1'', rem_time = 110000, rem_type = OnDue,
     triggered = False, snoozedUntil = None\<rparr>"

definition task_scan :: task where
  "task_scan = task_A\<lparr>reminders := [rem_1, rem_old, rem_ahead]\<rparr>"

definition task_two :: task where
  "task_two = task_A\<lparr>reminders := [rem_1, rem_2]\<rparr>"

definition world_of :: "task list \<Rightarrow> world" where
  "world_of ts = \<lparr>taskStore = store_A\<lparr>tasks := ts\<rparr>, permission = Default,
     activeReminders = [], snoozeIntervals = [], timers = [], nextHandle = 1,
     toasts = [], desktop = []\<rparr>"

definition active_1 :: active_reminder where
  "active_1 = \<lparr>ar_id = ''r1'', ar_taskId = ''t1'', taskTitle = ''A'', reminderTime = 70000,
     snoozeCount = 0\<rparr>"

definition active_2 :: active_reminder where
  "active_2 = \<lparr>ar_id = ''r2'', ar_taskId = ''t1'', taskTitle = ''A'', reminderTime = 70000,
     snoozeCount = 0\<rparr>"

text \<open>
  The states after a first and a second scan of the cache that holds \<open>task_two\<close>.
\<close>

definition task_two_1 :: task where
  "task_two_1 = task_A\<lparr>reminders := [rem_1, rem_2\<lparr>triggered := True\<rparr>]\<rparr>"

definition task_two_2 :: task where
  "task_two_2 = task_A\<lparr>reminders := [rem_1\<lparr>triggered := True\<rparr>, rem_2\<lparr>triggered := True\<rparr>]\<rparr>"

definition world_two_1 :: world where
  "world_two_1 = (world_of [task_two_1])
     \<lparr>activeReminders := [active_1, active_2],
      toasts := [TaskReminderToast ''A'', TaskReminderToast ''A'']\<rparr>"

definition world_two_2 :: world where
  "world_two_2 = (world_of [task_two_2])
     \<lparr>activeReminders := [active_1, active_2],
      toasts := [TaskReminderToast ''A'', TaskReminderToast ''A'', TaskReminderToast ''A'']\<rparr>"

definition store_NA :: "sort_order \<Rightarrow> store" where
  "store_NA ord = store_A\<lparr>tasks := [task_N, task_A], filters := defaultFilters\<lparr>sortOrder := ord\<rparr>\<rparr>"

definition data_B :: task_data where
  "data_B = \<lparr>d_title = ''B'', d_description = [], d_priority = High, d_dueDate = None,
     d_category = ''Work'', d_tags = [], d_estimatedMinutes = None,
     d_assignedTo = Some None, d_assignedToName = None, d_reminders = None\<rparr>"

definition row_B :: db_row where
  "row_B = \<lparr>row_id = ''srv1'', row_title = ''B'', row_description = [],
     row_priority = High, row_status = Pending, row_due_date = None,
     row_category = ''Work'', row_tags = [], row_estimated_minutes = None,
     row_created_at = 2001, row_completed_at = None, row_assigned_to = None\<rparr>"

definition complete_only :: task_updates where
  "complete_only = no_updates\<lparr>u_status := Some Completed\<rparr>"

definition title_B :: task_updates where
  "title_B = no_updates\<lparr>u_title := Some ''B''\<rparr>"


text \<open>
  The row of the task \<open>t1\<close> in the Remote Store, the task that \<^verbatim>\<open>dbToTask\<close> makes of
  \<open>row_B\<close>, and the store after the task \<open>t1\<close> has been renamed to \<open>t9\<close>.
\<close>

definition row_A :: db_row where
  "row_A = \<lparr>row_id = ''t1'', row_title = ''A'', row_description = [],
     row_priority = Medium, row_status = Pending, row_due_date = Some 5000,
     row_category = ''Work'', row_tags = [], row_estimated_minutes = None,
     row_created_at = 1000, row_completed_at = None, row_assigned_to = None\<rparr>"

definition task_B :: task where
  "task_B = \<lparr>task_id = ''srv1'', title = ''B'', description = [], priority = High,
     status = Pending, dueDate = None, category = ''Work'', tags = [],
     estimatedMinutes = None, createdAt = 2001, completedAt = None, reminders = [],
     assignedTo = Some None, assignedToName = None\<rparr>"


section \<open>Properties of the cache operations\<close>

lemma those_map_Some:
  "(\<And>x. x \<in> set xs \<Longrightarrow> f x = Some (g x)) \<Longrightarrow> those (map f xs) = Some (map g xs)"
  by (induction xs) simp_all

lemma as_Task_of_Task: "as_Task (of_Task t) = Some t"
  by (simp add: as_Task_def of_Task_def)

lemma full_replacement_of_Task: "full_replacement (of_Task t)"
  by (simp add: full_replacement_def of_Task_def)

text \<open>
  The three ways in which \<open>updateTaskOptimistic\<close> is entered: with a whole task,
  with an object that is taken for one (and is one), with an object that is merged.
\<close>

lemma updateTaskOptimistic_cast:
  assumes "full_replacement u" "as_Task u = Some t'"
  shows "updateTaskOptimistic i u s =
     Some (s\<lparr>tasks := map (\<lambda>t. if task_id t = i then t' else t) (tasks s)\<rparr>)"
proof -
  have "those (map (\<lambda>t. if task_id t = i then patch_entry u t else Some t) (tasks s))
      = Some (map (\<lambda>t. if task_id t = i then t' else t) (tasks s))"
    using assms by (intro those_map_Some) (auto simp: patch_entry_def)
  then show ?thesis by (simp add: updateTaskOptimistic_def)
qed

lemma updateTaskOptimistic_of_Task:
  "updateTaskOptimistic i (of_Task t') s =
     Some (s\<lparr>tasks := map (\<lambda>t. if task_id t = i then t' else t) (tasks s)\<rparr>)"
  by (rule updateTaskOptimistic_cast [OF full_replacement_of_Task as_Task_of_Task])

lemma updateTaskOptimistic_merge:
  assumes "\<not> full_replacement u"
  shows "updateTaskOptimistic i u s =
     Some (s\<lparr>tasks := map (\<lambda>t. if task_id t = i then spread t u else t) (tasks s)\<rparr>)"
proof -
  have "those (map (\<lambda>t. if task_id t = i then patch_entry u t else Some t) (tasks s))
      = Some (map (\<lambda>t. if task_id t = i then spread t u else t) (tasks s))"
    using assms by (intro those_map_Some) (auto simp: patch_entry_def)
  then show ?thesis by (simp add: updateTaskOptimistic_def)
qed

lemma map_absent_id:
  "i \<notin> task_id ` set ts \<Longrightarrow> map (\<lambda>t. if task_id t = i then f t else g t) ts = map g ts"
  by (induction ts) auto

lemma filter_absent_id:
  "i \<notin> task_id ` set ts \<Longrightarrow> filter (\<lambda>t. task_id t \<noteq> i) ts = ts"
  by (induction ts) auto

lemma filter_id_absent:
  "i \<notin> task_id ` set ts \<Longrightarrow> filter (\<lambda>t. task_id t = i) ts = []"
  by (induction ts) auto

lemma find_None_absent: "find (\<lambda>t. task_id t = i) ts = None \<Longrightarrow> i \<notin> task_id ` set ts"
  by (auto simp: find_None_iff)

text \<open>
  Claim C9. \<^verbatim>\<open>updateTaskOptimistic\<close> (patch) with an id that no task of the cache has
  returns normally and leaves the store as it was, whatever the update object is; so does
  \<^verbatim>\<open>deleteTaskOptimistic\<close> (remove).
\<close>

theorem absent_id_noop:
  assumes "i \<notin> task_id ` set (tasks s)"
  shows "updateTaskOptimistic i updates s = Some s \<and> deleteTaskOptimistic i s = s"
proof -
  have "those (map (\<lambda>t. if task_id t = i then patch_entry updates t else Some t) (tasks s))
      = Some (map (\<lambda>t. t) (tasks s))"
    using assms by (intro those_map_Some) auto
  then have "updateTaskOptimistic i updates s = Some s"
    by (simp add: updateTaskOptimistic_def)
  moreover have "deleteTaskOptimistic i s = s"
    using assms by (simp add: deleteTaskOptimistic_def filter_absent_id)
  ultimately show ?thesis by simp
qed

theorem absent_id_noop_witness:
  "''t2'' \<notin> task_id ` set (tasks store_A) \<and>
   updateTaskOptimistic ''t2'' (no_updates\<lparr>u_title := Some ''B''\<rparr>) store_A = Some store_A \<and>
   deleteTaskOptimistic ''t2'' store_A = store_A"
proof -
  have absent: "''t2'' \<notin> task_id ` set (tasks store_A)"
    by (simp add: store_A_def task_A_def)
  from absent_id_noop [OF absent] absent show ?thesis by simp
qed

section \<open>Rollback and reconciliation of the Sync Coordinator\<close>

lemma find_id_unique:
  assumes "find (\<lambda>t. task_id t = i) ts = Some orig" "distinct (map task_id ts)"
    "t \<in> set ts" "task_id t = i"
  shows "t = orig"
proof -
  from assms(1) have "orig \<in> set ts" "task_id orig = i"
    by (auto simp: find_Some_iff)
  with assms(2-4) show ?thesis
    by (auto simp: distinct_map dest: inj_onD)
qed

lemma restore_original:
  assumes "find (\<lambda>t. task_id t = i) ts = Some orig" "distinct (map task_id ts)"
  shows "map (\<lambda>t. if task_id t = i then orig else t) ts = ts"
proof -
  have "map (\<lambda>t. if task_id t = i then orig else t) ts = map (\<lambda>t. t) ts"
    using find_id_unique [OF assms] by (intro map_cong) auto
  then show ?thesis by simp
qed

lemma task_id_spread:
  "u_id u = None \<or> u_id u = Some (task_id t) \<Longrightarrow> task_id (spread t u) = task_id t"
  by (auto simp: spread_def key_or_def)

lemma task_id_as_Task: "as_Task u = Some t' \<Longrightarrow> u_id u = Some (task_id t')"
  by (auto simp: as_Task_def split: if_splits)

lemma task_id_optimisticTask: "task_id (optimisticTask uuid now taskData) = uuid"
  by (simp add: optimisticTask_def)

lemma task_id_dbToTask: "task_id (dbToTask row n) = row_id row"
  by (simp add: dbToTask_def)

text \<open>The optimistic apply of an update that is well typed, in one form for both branches.\<close>

lemma updateTaskOptimistic_typed:
  assumes typed: "full_replacement u \<longrightarrow> as_Task u \<noteq> None"
  shows "updateTaskOptimistic i u s =
     Some (s\<lparr>tasks := map (\<lambda>t. if task_id t = i then the (patch_entry u t) else t) (tasks s)\<rparr>)"
proof -
  have "those (map (\<lambda>t. if task_id t = i then patch_entry u t else Some t) (tasks s))
      = Some (map (\<lambda>t. if task_id t = i then the (patch_entry u t) else t) (tasks s))"
    using typed by (intro those_map_Some) (auto simp: patch_entry_def)
  then show ?thesis by (simp add: updateTaskOptimistic_def)
qed

lemma task_id_patch_entry:
  assumes same: "u_id u = None \<or> u_id u = Some (task_id t)"
    and typed: "full_replacement u \<longrightarrow> as_Task u \<noteq> None"
  shows "task_id (the (patch_entry u t)) = task_id t"
proof (cases "full_replacement u")
  case True
  with typed obtain t' where t': "as_Task u = Some t'" by auto
  from True have "u_id u \<noteq> None" by (simp add: full_replacement_def)
  with same task_id_as_Task [OF t'] have "task_id t' = task_id t" by auto
  with True t' show ?thesis by (simp add: patch_entry_def)
next
  case False
  with same show ?thesis by (simp add: patch_entry_def task_id_spread)
qed

lemma addTask_failed:
  assumes "uuid \<notin> task_id ` set (tasks s)"
  shows "\<exists>reqs. addTask user uuid now taskData (Failed e) prof s = Some (None, reqs, s)"
proof (cases user)
  case None
  then show ?thesis by (simp add: addTask_def)
next
  case (Some uid)
  with assms show ?thesis
    by (simp add: addTask_def Let_def deleteTaskOptimistic_def addTaskOptimistic_def
        filter_absent_id task_id_optimisticTask)
qed

lemma updateTask_failed:
  assumes dist: "distinct (map task_id (tasks s))"
    and same: "u_id updates = None \<or> u_id updates = Some i"
    and typed: "full_replacement updates \<longrightarrow> as_Task updates \<noteq> None"
  shows "\<exists>reqs. updateTask user (Failed e) i updates s = Some (False, reqs, s)"
proof (cases user)
  case None
  then show ?thesis by (simp add: updateTask_def)
next
  case (Some uid)
  show ?thesis
  proof (cases "find (\<lambda>t. task_id t = i) (tasks s)")
    case None
    with Some show ?thesis by (simp add: updateTask_def)
  next
    case found: (Some orig)
    define p where "p = (\<lambda>t. the (patch_entry updates t))"
    from typed have opt: "updateTaskOptimistic i updates s =
        Some (s\<lparr>tasks := map (\<lambda>t. if task_id t = i then p t else t) (tasks s)\<rparr>)"
      unfolding p_def by (rule updateTaskOptimistic_typed)
    have keeps: "task_id (p t) = i" if "task_id t = i" for t
      using that same typed task_id_patch_entry [of updates t] by (simp add: p_def)
    have "map ((\<lambda>t. if task_id t = i then orig else t) \<circ> (\<lambda>t. if task_id t = i then p t else t)) (tasks s)
        = map (\<lambda>t. if task_id t = i then orig else t) (tasks s)"
      using keeps by (intro map_cong) auto
    also have "\<dots> = tasks s"
      using found dist by (rule restore_original)
    finally have undone: "map ((\<lambda>t. if task_id t = i then orig else t) \<circ> (\<lambda>t. if task_id t = i then p t else t)) (tasks s) = tasks s" .
    show ?thesis
      using Some found opt undone
      by (simp add: updateTask_def updateTaskOptimistic_of_Task)
  qed
qed

lemma set_reinsert:
  assumes found: "find (\<lambda>t. task_id t = i) ts = Some orig" and dist: "distinct (map task_id ts)"
  shows "set (orig # filter (\<lambda>t. task_id t \<noteq> i) ts) = set ts"
proof
  from found have mem: "orig \<in> set ts" by (auto simp: find_Some_iff)
  then show "set (orig # filter (\<lambda>t. task_id t \<noteq> i) ts) \<subseteq> set ts" by auto
  show "set ts \<subseteq> set (orig # filter (\<lambda>t. task_id t \<noteq> i) ts)"
  proof
    fix t assume t: "t \<in> set ts"
    show "t \<in> set (orig # filter (\<lambda>t. task_id t \<noteq> i) ts)"
    proof (cases "task_id t = i")
      case True
      with found dist t have "t = orig" by (rule find_id_unique)
      then show ?thesis by simp
    next
      case False
      with t show ?thesis by simp
    qed
  qed
qed

lemma distinct_reinsert:
  assumes found: "find (\<lambda>t. task_id t = i) ts = Some orig" and dist: "distinct (map task_id ts)"
  shows "distinct (map task_id (orig # filter (\<lambda>t. task_id t \<noteq> i) ts))"
proof -
  from found have "task_id orig = i" by (auto simp: find_Some_iff)
  then have "task_id orig \<notin> task_id ` set (filter (\<lambda>t. task_id t \<noteq> i) ts)" by auto
  moreover have "distinct (map task_id (filter (\<lambda>t. task_id t \<noteq> i) ts))"
    using dist by (rule distinct_map_filter)
  ultimately show ?thesis by simp
qed

lemma deleteTask_failed_eq:
  "deleteTask (Some uid) (Failed e) i s =
     (False, [DeleteTask i],
      case find (\<lambda>t. task_id t = i) (tasks s) of
        None \<Rightarrow> s\<lparr>tasks := filter (\<lambda>t. task_id t \<noteq> i) (tasks s)\<rparr>
      | Some orig \<Rightarrow> s\<lparr>tasks := orig # filter (\<lambda>t. task_id t \<noteq> i) (tasks s)\<rparr>)"
  by (simp add: deleteTask_def deleteTaskOptimistic_def addTaskOptimistic_def Let_def
      split: option.split)

lemma deleteTask_failed:
  assumes dist: "distinct (map task_id (tasks s))"
  shows "\<exists>reqs s'. deleteTask user (Failed e) i s = (False, reqs, s') \<and>
     set (tasks s') = set (tasks s) \<and> distinct (map task_id (tasks s')) \<and>
     filters s' = filters s"
proof (cases user)
  case None
  then show ?thesis using dist by (simp add: deleteTask_def)
next
  case (Some uid)
  show ?thesis
  proof (cases "find (\<lambda>t. task_id t = i) (tasks s)")
    case None
    then have "filter (\<lambda>t. task_id t \<noteq> i) (tasks s) = tasks s"
      by (intro filter_absent_id find_None_absent)
    with Some None dist show ?thesis
      by (simp add: deleteTask_failed_eq)
  next
    case found: (Some orig)
    from Some found set_reinsert [OF found dist] distinct_reinsert [OF found dist]
    show ?thesis
      by (simp only: deleteTask_failed_eq option.case) simp
  qed
qed

text \<open>
  What the rollback restores when nothing else writes to the cache between the
  optimistic apply and the rollback. In a cache whose tasks have pairwise different ids:
  \<^item> a failed \<^verbatim>\<open>addTask\<close> with a temporary id that no task has returns the very store
    (the optimistic entry is removed again);
  \<^item> a failed \<^verbatim>\<open>updateTask\<close> returns the very store, when the update object does not
    carry another id than the task's (and is a whole task where it is taken for one);
  \<^item> a failed \<^verbatim>\<open>deleteTask\<close> returns a store with the same set of tasks, the deleted
    entry being inserted again in front.
\<close>

lemma rollback_restores:
  assumes dist: "distinct (map task_id (tasks s))"
  shows "(uuid \<notin> task_id ` set (tasks s) \<longrightarrow>
            (\<exists>reqs. addTask user uuid now taskData (Failed e) prof s = Some (None, reqs, s))) \<and>
         ((u_id updates = None \<or> u_id updates = Some i) \<and>
          (full_replacement updates \<longrightarrow> as_Task updates \<noteq> None) \<longrightarrow>
            (\<exists>reqs. updateTask user (Failed e) i updates s = Some (False, reqs, s))) \<and>
         (\<exists>reqs s'. deleteTask user (Failed e) i s = (False, reqs, s') \<and>
            set (tasks s') = set (tasks s) \<and> distinct (map task_id (tasks s')) \<and>
            filters s' = filters s)"
proof (intro conjI impI)
  assume "uuid \<notin> task_id ` set (tasks s)"
  then show "\<exists>reqs. addTask user uuid now taskData (Failed e) prof s = Some (None, reqs, s)"
    by (rule addTask_failed)
next
  assume "(u_id updates = None \<or> u_id updates = Some i) \<and>
          (full_replacement updates \<longrightarrow> as_Task updates \<noteq> None)"
  with dist show "\<exists>reqs. updateTask user (Failed e) i updates s = Some (False, reqs, s)"
    by (intro updateTask_failed) auto
next
  from dist show "\<exists>reqs s'. deleteTask user (Failed e) i s = (False, reqs, s') \<and>
            set (tasks s') = set (tasks s) \<and> distinct (map task_id (tasks s')) \<and>
            filters s' = filters s"
    by (rule deleteTask_failed)
qed

lemma rollback_restores_example:
  "distinct (map task_id (tasks store_A)) \<and>
   ''tmp1'' \<notin> task_id ` set (tasks store_A) \<and>
   (\<exists>reqs. addTask (Some ''u1'') ''tmp1'' 2000 data_B (Failed ''offline'') None store_A
        = Some (None, reqs, store_A)) \<and>
   u_id title_B = None \<and> \<not> full_replacement title_B \<and>
   (\<exists>reqs. updateTask (Some ''u1'') (Failed ''offline'') ''t1'' title_B store_A
        = Some (False, reqs, store_A)) \<and>
   (\<exists>reqs s'. deleteTask (Some ''u1'') (Failed ''offline'') ''t1'' store_A = (False, reqs, s') \<and>
        set (tasks s') = set (tasks store_A) \<and> distinct (map task_id (tasks s')) \<and>
        filters s' = filters store_A)"
proof -
  have d: "distinct (map task_id (tasks store_A))"
    by (simp add: store_A_def)
  have f: "''tmp1'' \<notin> task_id ` set (tasks store_A)"
    by (simp add: store_A_def task_A_def)
  have u: "u_id title_B = None" "\<not> full_replacement title_B"
    by (simp_all add: title_B_def no_updates_def full_replacement_def)
  from rollback_restores [OF d, of "''tmp1''" "Some ''u1''" 2000 data_B "''offline''" None
      title_B "''t1''"] d f u
  show ?thesis by simp
qed



lemma replace_head:
  assumes "uuid \<notin> task_id ` set ts" "task_id t = uuid"
  shows "map (\<lambda>x. if task_id x = uuid then t' else x) (t # ts) = t' # ts"
proof -
  have "map (\<lambda>x. if task_id x = uuid then t' else x) ts = map (\<lambda>x. x) ts"
    using assms(1) by (rule map_absent_id)
  with assms(2) show ?thesis by simp
qed

lemma dbToTask_fields:
  "dbToTask data n =
     \<lparr>task_id = row_id data, title = row_title data, description = row_description data,
      priority = row_priority data, status = row_status data, dueDate = row_due_date data,
      category = (if row_category data = [] then ''Personal'' else row_category data),
      tags = row_tags data, estimatedMinutes = row_estimated_minutes data,
      createdAt = row_created_at data, completedAt = row_completed_at data, reminders = [],
      assignedTo = Some (truthy_str (row_assigned_to data)), assignedToName = n\<rparr>"
  by (simp add: dbToTask_def str_or_def)

lemma addTask_two_halves:
  "addTask (Some uid) uuid now taskData resp prof s =
     map_option (\<lambda>res. (fst res,
         (case resp of
            Failed e \<Rightarrow> [InsertTask (insert_of uid taskData)]
          | Ok data \<Rightarrow> (case truthy_str (row_assigned_to data) of
                         None \<Rightarrow> [InsertTask (insert_of uid taskData)]
                       | Some a \<Rightarrow> [InsertTask (insert_of uid taskData), SelectProfile a])),
         snd res))
       (addTask_settle uuid resp prof (addTask_apply uuid now taskData s))"
  by (cases resp)
     (simp_all add: addTask_def addTask_settle_def addTask_apply_def Let_def
        task_id_optimisticTask option.map_comp comp_def)


lemma addTask_settle_ok:
  "addTask_settle uuid (Ok data) prof m =
     Some (Some (dbToTask data (assignee_of data prof)),
           m\<lparr>tasks := map (\<lambda>t. if task_id t = uuid then dbToTask data (assignee_of data prof) else t)
                        (tasks m)\<rparr>)"
  by (simp add: addTask_settle_def Let_def updateTaskOptimistic_of_Task)

lemma replaced_none_left:
  "task_id r \<noteq> u \<Longrightarrow>
     filter (\<lambda>t. task_id t = u) (map (\<lambda>t. if task_id t = u then r else t) ts) = []"
  by (induction ts) auto

lemma replaced_count:
  "task_id r \<noteq> u \<Longrightarrow>
     length (filter (\<lambda>t. task_id t = task_id r) (map (\<lambda>t. if task_id t = u then r else t) ts))
       = length (filter (\<lambda>t. task_id t = task_id r) ts) + length (filter (\<lambda>t. task_id t = u) ts)"
  by (induction ts) auto

lemma fetchTasks_ids:
  "map task_id (tasks (fetchTasks (Some uid) (Ok rows) profiles s)) = map row_id rows"
  by (simp add: fetchTasks_def setTasks_def setLoading_def setInitialized_def Let_def
      task_id_dbToTask comp_def)

lemma count_by_id:
  "length (filter (\<lambda>t. f t = x) ts) = length (filter (\<lambda>y. y = x) (map f ts))"
  by (induction ts) auto

lemma ids_as_map: "f ` set ts = set (map f ts)"
  by simp

lemma addTask_settle_after_reload:
  assumes "uuid \<notin> row_id ` set rows"
  shows "addTask_settle uuid (Ok data) prof (fetchTasks (Some uid) (Ok rows) profiles s0)
       = Some (Some (dbToTask data (assignee_of data prof)),
               fetchTasks (Some uid) (Ok rows) profiles s0) \<and>
     filter (\<lambda>t. task_id t = uuid) (tasks (fetchTasks (Some uid) (Ok rows) profiles s0)) = [] \<and>
     length (filter (\<lambda>t. task_id t = row_id data)
               (tasks (fetchTasks (Some uid) (Ok rows) profiles s0)))
       = length (filter (\<lambda>r. row_id r = row_id data) rows)"
proof -
  let ?m = "fetchTasks (Some uid) (Ok rows) profiles s0"
  have ids: "map task_id (tasks ?m) = map row_id rows"
    by (rule fetchTasks_ids)
  have "task_id ` set (tasks ?m) = row_id ` set rows"
    unfolding ids_as_map ids ..
  with assms have absent: "uuid \<notin> task_id ` set (tasks ?m)" by simp
  then have "map (\<lambda>t. if task_id t = uuid then dbToTask data (assignee_of data prof) else t) (tasks ?m)
      = map (\<lambda>t. t) (tasks ?m)"
    by (rule map_absent_id)
  then have "addTask_settle uuid (Ok data) prof ?m
       = Some (Some (dbToTask data (assignee_of data prof)), ?m)"
    by (simp add: addTask_settle_ok)
  moreover from absent have "filter (\<lambda>t. task_id t = uuid) (tasks ?m) = []"
    by (rule filter_id_absent)
  moreover have "length (filter (\<lambda>t. task_id t = row_id data) (tasks ?m))
       = length (filter (\<lambda>r. row_id r = row_id data) rows)"
    unfolding count_by_id [of task_id] count_by_id [of row_id] ids ..
  ultimately show ?thesis by (intro conjI)
qed

text \<open>
  Claim C2, as amended. The reconciliation of a successful \<^verbatim>\<open>addTask\<close> runs on the
  cache \<open>m\<close> as it is when the response has arrived. The server's record is
  \<^verbatim>\<open>dbToTask\<close> of the returned row, field by field the row's (an empty category reads
  \<open>Personal\<close>, the reminders are empty, the assignee's name is the one looked up). The
  reconciliation returns that record and puts it in the place of every task of \<open>m\<close>
  that has the temporary id, leaving the other tasks as they are. When the server's id
  is not the temporary one, no task has the temporary id afterwards, and the tasks with
  the server's id are as many as had the server's or the temporary id in \<open>m\<close>.
  \<^verbatim>\<open>addTask\<close> as a whole is the reconciliation run right after the optimistic insert.
  \<^item> When nothing else has written to the cache since the optimistic insert, the
    temporary id being fresh and the server's id new, the cache is the server's record
    in front of the old tasks: exactly one task has the server's id, none the temporary
    id.
  \<^item> When a reload has replaced the cache in between (its rows not having the temporary
    id), the reconciliation changes nothing: the cache has no task with the temporary
    id, and as many tasks with the server's id as the reloaded rows have.
\<close>

theorem addTask_reconciles:
  "dbToTask data (assignee_of data prof) =
     \<lparr>task_id = row_id data, title = row_title data, description = row_description data,
      priority = row_priority data, status = row_status data, dueDate = row_due_date data,
      category = (if row_category data = [] then ''Personal'' else row_category data),
      tags = row_tags data, estimatedMinutes = row_estimated_minutes data,
      createdAt = row_created_at data, completedAt = row_completed_at data, reminders = [],
      assignedTo = Some (truthy_str (row_assigned_to data)),
      assignedToName = assignee_of data prof\<rparr> \<and>
   addTask_settle uuid (Ok data) prof m =
     Some (Some (dbToTask data (assignee_of data prof)),
           m\<lparr>tasks := map (\<lambda>t. if task_id t = uuid then dbToTask data (assignee_of data prof) else t)
                        (tasks m)\<rparr>) \<and>
   (row_id data \<noteq> uuid \<longrightarrow>
      filter (\<lambda>t. task_id t = uuid)
        (map (\<lambda>t. if task_id t = uuid then dbToTask data (assignee_of data prof) else t) (tasks m)) = [] \<and>
      length (filter (\<lambda>t. task_id t = row_id data)
        (map (\<lambda>t. if task_id t = uuid then dbToTask data (assignee_of data prof) else t) (tasks m)))
        = length (filter (\<lambda>t. task_id t = row_id data) (tasks m))
          + length (filter (\<lambda>t. task_id t = uuid) (tasks m))) \<and>
   (\<exists>reqs. addTask (Some uid) uuid now taskData (Ok data) prof s =
      map_option (\<lambda>res. (fst res, reqs, snd res))
        (addTask_settle uuid (Ok data) prof (addTask_apply uuid now taskData s))) \<and>
   (uuid \<notin> task_id ` set (tasks s) \<and> row_id data \<notin> task_id ` set (tasks s) \<and> row_id data \<noteq> uuid \<longrightarrow>
      (\<exists>reqs. addTask (Some uid) uuid now taskData (Ok data) prof s =
         Some (Some (dbToTask data (assignee_of data prof)), reqs,
               s\<lparr>tasks := dbToTask data (assignee_of data prof) # tasks s\<rparr>)) \<and>
      addTask_settle uuid (Ok data) prof (addTask_apply uuid now taskData s) =
        Some (Some (dbToTask data (assignee_of data prof)),
              s\<lparr>tasks := dbToTask data (assignee_of data prof) # tasks s\<rparr>) \<and>
      length (filter (\<lambda>t. task_id t = row_id data)
                (dbToTask data (assignee_of data prof) # tasks s)) = 1 \<and>
      filter (\<lambda>t. task_id t = uuid) (dbToTask data (assignee_of data prof) # tasks s) = []) \<and>
   (uuid \<notin> row_id ` set rows \<longrightarrow>
      addTask_settle uuid (Ok data) prof
          (fetchTasks (Some uid) (Ok rows) profiles (addTask_apply uuid now taskData s))
        = Some (Some (dbToTask data (assignee_of data prof)),
                fetchTasks (Some uid) (Ok rows) profiles (addTask_apply uuid now taskData s)) \<and>
      filter (\<lambda>t. task_id t = uuid)
        (tasks (fetchTasks (Some uid) (Ok rows) profiles (addTask_apply uuid now taskData s))) = [] \<and>
      length (filter (\<lambda>t. task_id t = row_id data)
        (tasks (fetchTasks (Some uid) (Ok rows) profiles (addTask_apply uuid now taskData s))))
        = length (filter (\<lambda>r. row_id r = row_id data) rows))"
proof (intro conjI impI)
  show "dbToTask data (assignee_of data prof) =
     \<lparr>task_id = row_id data, title = row_title data, description = row_description data,
      priority = row_priority data, status = row_status data, dueDate = row_due_date data,
      category = (if row_category data = [] then ''Personal'' else row_category data),
      tags = row_tags data, estimatedMinutes = row_estimated_minutes data,
      createdAt = row_created_at data, completedAt = row_completed_at data, reminders = [],
      assignedTo = Some (truthy_str (row_assigned_to data)),
      assignedToName = assignee_of data prof\<rparr>"
    by (rule dbToTask_fields)
next
  show "addTask_settle uuid (Ok data) prof m =
     Some (Some (dbToTask data (assignee_of data prof)),
           m\<lparr>tasks := map (\<lambda>t. if task_id t = uuid then dbToTask data (assignee_of data prof) else t)
                        (tasks m)\<rparr>)"
    by (rule addTask_settle_ok)
next
  assume "row_id data \<noteq> uuid"
  then have d: "task_id (dbToTask data (assignee_of data prof)) \<noteq> uuid"
    by (simp add: task_id_dbToTask)
  from replaced_none_left [OF d]
  show "filter (\<lambda>t. task_id t = uuid)
        (map (\<lambda>t. if task_id t = uuid then dbToTask data (assignee_of data prof) else t) (tasks m)) = []" .
  from replaced_count [OF d, of "tasks m"]
  show "length (filter (\<lambda>t. task_id t = row_id data)
        (map (\<lambda>t. if task_id t = uuid then dbToTask data (assignee_of data prof) else t) (tasks m)))
        = length (filter (\<lambda>t. task_id t = row_id data) (tasks m))
          + length (filter (\<lambda>t. task_id t = uuid) (tasks m))"
    by (simp only: task_id_dbToTask)
next
  show "\<exists>reqs. addTask (Some uid) uuid now taskData (Ok data) prof s =
      map_option (\<lambda>res. (fst res, reqs, snd res))
        (addTask_settle uuid (Ok data) prof (addTask_apply uuid now taskData s))"
    by (rule exI, rule addTask_two_halves [where resp = "Ok data", simplified response.case])
next
  assume h: "uuid \<notin> task_id ` set (tasks s) \<and> row_id data \<notin> task_id ` set (tasks s) \<and> row_id data \<noteq> uuid"
  then have fresh: "uuid \<notin> task_id ` set (tasks s)"
    and new: "row_id data \<notin> task_id ` set (tasks s)" and differ: "row_id data \<noteq> uuid"
    by simp_all
  have "map (\<lambda>x. if task_id x = uuid then t' else x) (optimisticTask uuid now taskData # tasks s)
      = t' # tasks s" for t'
    using fresh by (intro replace_head) (simp_all add: task_id_optimisticTask)
  then show st: "addTask_settle uuid (Ok data) prof (addTask_apply uuid now taskData s) =
        Some (Some (dbToTask data (assignee_of data prof)),
              s\<lparr>tasks := dbToTask data (assignee_of data prof) # tasks s\<rparr>)"
    by (simp add: addTask_settle_ok addTask_apply_def addTaskOptimistic_def del: list.map)
  show "\<exists>reqs. addTask (Some uid) uuid now taskData (Ok data) prof s =
         Some (Some (dbToTask data (assignee_of data prof)), reqs,
               s\<lparr>tasks := dbToTask data (assignee_of data prof) # tasks s\<rparr>)"
    by (simp add: addTask_two_halves st)
  from filter_id_absent [OF new]
  show "length (filter (\<lambda>t. task_id t = row_id data)
                (dbToTask data (assignee_of data prof) # tasks s)) = 1"
    by (simp add: task_id_dbToTask)
  from filter_id_absent [OF fresh] differ
  show "filter (\<lambda>t. task_id t = uuid) (dbToTask data (assignee_of data prof) # tasks s) = []"
    by (simp add: task_id_dbToTask)
next
  assume a: "uuid \<notin> row_id ` set rows"
  note r = addTask_settle_after_reload [OF a, of data prof uid profiles "addTask_apply uuid now taskData s"]
  from r show "addTask_settle uuid (Ok data) prof
          (fetchTasks (Some uid) (Ok rows) profiles (addTask_apply uuid now taskData s))
        = Some (Some (dbToTask data (assignee_of data prof)),
                fetchTasks (Some uid) (Ok rows) profiles (addTask_apply uuid now taskData s))"
    by (rule conjunct1)
  from r show "filter (\<lambda>t. task_id t = uuid)
        (tasks (fetchTasks (Some uid) (Ok rows) profiles (addTask_apply uuid now taskData s))) = []"
    by blast
  from r show "length (filter (\<lambda>t. task_id t = row_id data)
        (tasks (fetchTasks (Some uid) (Ok rows) profiles (addTask_apply uuid now taskData s))))
        = length (filter (\<lambda>r. row_id r = row_id data) rows)"
    by blast
qed

lemma dbToTask_row_B: "dbToTask row_B (assignee_of row_B None) = task_B"
  by (simp add: dbToTask_def row_B_def task_B_def assignee_of_def truthy_str_def str_or_def)

lemma dbToTask_row_A: "dbToTask row_A None = task_A"
  by (simp add: dbToTask_def row_A_def task_A_def truthy_str_def str_or_def)

lemma reload_B_A:
  "fetchTasks (Some ''u1'') (Ok [row_B, row_A]) [] s0 =
     s0\<lparr>tasks := [task_B, task_A], isLoading := False, isInitialized := True\<rparr>"
  using dbToTask_row_B dbToTask_row_A
  by (simp add: fetchTasks_def setTasks_def setLoading_def setInitialized_def Let_def
      row_A_def row_B_def truthy_str_def assignee_of_def)

lemma reload_A:
  "fetchTasks (Some ''u1'') (Ok [row_A]) [] s0 =
     s0\<lparr>tasks := [task_A], isLoading := False, isInitialized := True\<rparr>"
  using dbToTask_row_A
  by (simp add: fetchTasks_def setTasks_def setLoading_def setInitialized_def Let_def
      row_A_def truthy_str_def)

lemma apply_B:
  "addTask_apply ''tmp1'' 2000 data_B store_A =
     store_A\<lparr>tasks := [optimisticTask ''tmp1'' 2000 data_B, task_A]\<rparr>"
  by (simp add: addTask_apply_def addTaskOptimistic_def store_A_def)

theorem addTask_reconciles_witness:
  "row_id row_B = ''srv1'' \<and>
   dbToTask row_B (assignee_of row_B None) = task_B \<and>
   ''tmp1'' \<notin> task_id ` set (tasks store_A) \<and>
   ''srv1'' \<notin> task_id ` set (tasks store_A) \<and>
   addTask_apply ''tmp1'' 2000 data_B store_A
     = store_A\<lparr>tasks := [optimisticTask ''tmp1'' 2000 data_B, task_A]\<rparr> \<and>
   addTask_settle ''tmp1'' (Ok row_B) None (addTask_apply ''tmp1'' 2000 data_B store_A)
     = Some (Some task_B, store_A\<lparr>tasks := [task_B, task_A]\<rparr>) \<and>
   addTask (Some ''u1'') ''tmp1'' 2000 data_B (Ok row_B) None store_A
     = Some (Some task_B, [InsertTask (insert_of ''u1'' data_B)],
             store_A\<lparr>tasks := [task_B, task_A]\<rparr>) \<and>
   length (filter (\<lambda>t. task_id t = ''srv1'') [task_B, task_A]) = 1 \<and>
   filter (\<lambda>t. task_id t = ''tmp1'') [task_B, task_A] = [] \<and>
   ''tmp1'' \<notin> row_id ` set [row_B, row_A] \<and>
   fetchTasks (Some ''u1'') (Ok [row_B, row_A]) [] (addTask_apply ''tmp1'' 2000 data_B store_A)
     = store_A\<lparr>tasks := [task_B, task_A]\<rparr> \<and>
   addTask_settle ''tmp1'' (Ok row_B) None (store_A\<lparr>tasks := [task_B, task_A]\<rparr>)
     = Some (Some task_B, store_A\<lparr>tasks := [task_B, task_A]\<rparr>) \<and>
   length (filter (\<lambda>r. row_id r = ''srv1'') [row_B, row_A]) = 1"
proof -
  have r: "row_id row_B = ''srv1''" by (simp add: row_B_def)
  have f: "''tmp1'' \<notin> task_id ` set (tasks store_A)"
    and n: "''srv1'' \<notin> task_id ` set (tasks store_A)"
    by (simp_all add: store_A_def task_A_def)
  have a: "''tmp1'' \<notin> row_id ` set [row_B, row_A]"
    by (simp add: row_A_def row_B_def)
  have l: "fetchTasks (Some ''u1'') (Ok [row_B, row_A]) [] (addTask_apply ''tmp1'' 2000 data_B store_A)
     = store_A\<lparr>tasks := [task_B, task_A]\<rparr>"
    by (simp add: reload_B_A apply_B) (simp add: store_A_def)
  have q: "truthy_str (row_assigned_to row_B) = None"
    by (simp add: row_B_def truthy_str_def)
  have c: "length (filter (\<lambda>r. row_id r = ''srv1'') [row_B, row_A]) = 1"
    by (simp add: row_A_def row_B_def)
  have d: "''srv1'' \<noteq> ''tmp1''" by simp
  note inst = addTask_reconciles [where data = row_B and prof = None and uuid = "''tmp1''"
      and now = 2000 and taskData = data_B and s = store_A and uid = "''u1''"
      and rows = "[row_B, row_A]" and profiles = "[]"
      and m = "addTask_apply ''tmp1'' 2000 data_B store_A", unfolded r dbToTask_row_B l]
  from inst f n d have seq0:
    "addTask_settle ''tmp1'' (Ok row_B) None (addTask_apply ''tmp1'' 2000 data_B store_A)
       = Some (Some task_B, store_A\<lparr>tasks := task_B # tasks store_A\<rparr>)"
    and one0: "length (filter (\<lambda>t. task_id t = ''srv1'') (task_B # tasks store_A)) = 1"
    and none0: "filter (\<lambda>t. task_id t = ''tmp1'') (task_B # tasks store_A) = []"
    by blast+
  have ts: "tasks store_A = [task_A]" by (simp add: store_A_def)
  note seq = seq0 [unfolded ts] and one = one0 [unfolded ts] none0 [unfolded ts]
  from inst a have landed:
    "addTask_settle ''tmp1'' (Ok row_B) None (store_A\<lparr>tasks := [task_B, task_A]\<rparr>)
       = Some (Some task_B, store_A\<lparr>tasks := [task_B, task_A]\<rparr>)"
    by blast
  have whole: "addTask (Some ''u1'') ''tmp1'' 2000 data_B (Ok row_B) None store_A
     = Some (Some task_B, [InsertTask (insert_of ''u1'' data_B)],
             store_A\<lparr>tasks := [task_B, task_A]\<rparr>)"
    by (simp add: addTask_two_halves seq q)
  from r dbToTask_row_B f n apply_B seq whole one a l landed c
  show ?thesis by (intro conjI)
qed

text \<open>
  Claim C2 as stated fails when a reload that was answered before the insert lands
  between the optimistic insert and the reconciliation: the reload replaces the cache
  by its rows, which have neither the temporary nor the new id, the reconciliation finds
  no task with the temporary id and changes nothing, and the cache has no task with the
  server-assigned id although the insert has succeeded.
\<close>

theorem stale_reload_loses_new_task:
  "addTask_apply ''tmp1'' 2000 data_B store_A
     = store_A\<lparr>tasks := [optimisticTask ''tmp1'' 2000 data_B, task_A]\<rparr> \<and>
   fetchTasks (Some ''u1'') (Ok [row_A]) [] (addTask_apply ''tmp1'' 2000 data_B store_A)
     = store_A \<and>
   row_id row_B = ''srv1'' \<and>
   addTask_settle ''tmp1'' (Ok row_B) None store_A = Some (Some task_B, store_A) \<and>
   tasks store_A = [task_A] \<and>
   length (filter (\<lambda>t. task_id t = ''srv1'') (tasks store_A)) = 0"
proof -
  have l: "fetchTasks (Some ''u1'') (Ok [row_A]) [] (addTask_apply ''tmp1'' 2000 data_B store_A)
     = store_A"
    by (simp add: reload_A apply_B) (simp add: store_A_def)
  have "map (\<lambda>t. if task_id t = ''tmp1'' then task_B else t) (tasks store_A) = tasks store_A"
    by (simp add: store_A_def task_A_def)
  then have s: "addTask_settle ''tmp1'' (Ok row_B) None store_A = Some (Some task_B, store_A)"
    unfolding addTask_settle_ok dbToTask_row_B by simp
  have r: "row_id row_B = ''srv1''" by (simp add: row_B_def)
  have t: "tasks store_A = [task_A]" by (simp add: store_A_def)
  have z: "length (filter (\<lambda>t. task_id t = ''srv1'') (tasks store_A)) = 0"
    by (simp add: store_A_def task_A_def)
  from apply_B l r s t z show ?thesis by (intro conjI)
qed

section \<open>What the mutations keep\<close>

lemma list_all_replace:
  "list_all P ts \<Longrightarrow> (\<And>t. t \<in> set ts \<Longrightarrow> P t \<Longrightarrow> P (f t))
     \<Longrightarrow> list_all P (map (\<lambda>t. if task_id t = i then f t else t) ts)"
  by (induction ts) auto

lemma list_all_replace_by:
  "list_all P ts \<Longrightarrow> P x \<Longrightarrow> list_all P (map (\<lambda>t. if task_id t = i then x else t) ts)"
  by (induction ts) auto

lemma find_in_set: "find Q ts = Some t \<Longrightarrow> t \<in> set ts"
  by (auto simp: find_Some_iff)

lemma updateTask_ok:
  assumes "find (\<lambda>t. task_id t = i) (tasks s) = Some orig"
    and "full_replacement u \<longrightarrow> as_Task u \<noteq> None"
  shows "updateTask (Some uid) (Ok ok) i u s =
     Some (True, [UpdateTask i (dbUpdates u)],
           s\<lparr>tasks := map (\<lambda>t. if task_id t = i then the (patch_entry u t) else t) (tasks s)\<rparr>)"
  using assms by (simp add: updateTask_def updateTaskOptimistic_typed)

lemma updateTask_preserves:
  assumes typed: "full_replacement u \<longrightarrow> as_Task u \<noteq> None"
    and all: "list_all P (tasks s)"
    and step: "\<And>t. t \<in> set (tasks s) \<Longrightarrow> P t \<Longrightarrow> P (the (patch_entry u t))"
  shows "\<exists>res. updateTask user resp i u s = Some res \<and> list_all P (tasks (snd (snd res)))"
proof (cases user)
  case None
  with all show ?thesis by (simp add: updateTask_def)
next
  case (Some uid)
  show ?thesis
  proof (cases "find (\<lambda>t. task_id t = i) (tasks s)")
    case None
    with Some all show ?thesis by (simp add: updateTask_def)
  next
    case found: (Some orig)
    let ?ts1 = "map (\<lambda>t. if task_id t = i then the (patch_entry u t) else t) (tasks s)"
    have one: "list_all P ?ts1"
      using all step by (rule list_all_replace)
    show ?thesis
    proof (cases resp)
      case (Ok ok)
      with Some found typed one show ?thesis
        by (simp add: updateTask_ok)
    next
      case (Failed e)
      from found all have "P orig"
        by (auto simp: list_all_iff dest: find_in_set)
      with one have "list_all P (map (\<lambda>t. if task_id t = i then orig else t) ?ts1)"
        by (rule list_all_replace_by)
      with Some found typed Failed show ?thesis
        by (simp add: updateTask_def updateTaskOptimistic_typed updateTaskOptimistic_of_Task
            del: map_map)
    qed
  qed
qed

lemma addTask_preserves:
  assumes all: "list_all P (tasks s)"
    and real: "\<And>data. resp = Ok data \<Longrightarrow> P (dbToTask data (assignee_of data prof))"
  shows "\<exists>res. addTask user uuid now taskData resp prof s = Some res \<and>
           list_all P (tasks (snd (snd res)))"
proof (cases user)
  case None
  with all show ?thesis by (simp add: addTask_def)
next
  case (Some uid)
  let ?opt = "optimisticTask uuid now taskData"
  show ?thesis
  proof (cases resp)
    case (Failed e)
    from all have "list_all P (filter (\<lambda>t. task_id t \<noteq> uuid) (tasks s))"
      by (auto simp: list_all_iff)
    with Some Failed show ?thesis
      by (simp add: addTask_def Let_def deleteTaskOptimistic_def addTaskOptimistic_def
          task_id_optimisticTask)
  next
    case (Ok data)
    let ?real = "dbToTask data (assignee_of data prof)"
    from Ok have "P ?real" by (rule real)
    with all have "list_all P (map (\<lambda>t. if task_id t = uuid then ?real else t) (tasks s))"
      by (rule list_all_replace_by)
    with Some Ok \<open>P ?real\<close> show ?thesis
      by (cases "truthy_str (row_assigned_to data)")
         (simp_all add: addTask_def Let_def addTaskOptimistic_def updateTaskOptimistic_of_Task
            task_id_optimisticTask)
  qed
qed

lemma deleteTask_preserves:
  assumes all: "list_all P (tasks s)"
  shows "list_all P (tasks (snd (snd (deleteTask user resp i s))))"
proof -
  from all have rest: "list_all P (filter (\<lambda>t. task_id t \<noteq> i) (tasks s))"
    by (auto simp: list_all_iff)
  have orig: "P orig" if "find (\<lambda>t. task_id t = i) (tasks s) = Some orig" for orig
    using that all by (auto simp: list_all_iff dest: find_in_set)
  show ?thesis
    using all rest orig
    by (cases user; cases resp; cases "find (\<lambda>t. task_id t = i) (tasks s)")
       (simp_all add: deleteTask_def Let_def deleteTaskOptimistic_def addTaskOptimistic_def)
qed

section \<open>Toggling the status\<close>

lemma status_patch_merged: "\<not> full_replacement (status_patch a c)"
  by (simp add: full_replacement_def status_patch_def no_updates_def)

lemma spread_status_patch: "spread t (status_patch a c) = t\<lparr>status := a, completedAt := c\<rparr>"
  by (simp add: spread_def status_patch_def no_updates_def key_or_def opt_key_or_def)

lemma patch_entry_status_patch:
  "the (patch_entry (status_patch a c) t) = t\<lparr>status := a, completedAt := c\<rparr>"
  by (simp add: patch_entry_def status_patch_merged spread_status_patch)

lemma dbUpdates_status_patch:
  "upd_status (dbUpdates (status_patch a c)) = Some a"
  "upd_completed_at (dbUpdates (status_patch a c)) = Some c"
  by (simp_all add: dbUpdates_def status_patch_def no_updates_def)

lemma toggleTaskStatus_found:
  assumes "find (\<lambda>x. task_id x = i) (tasks s) = Some t"
  shows "toggleTaskStatus user resp now i s =
     updateTask user resp i
       (status_patch (if status t = Pending then Completed else Pending)
          (if status t = Pending then Some now else None)) s"
  using assms by (simp add: toggleTaskStatus_def Let_def)

lemma updateTask_status_patch:
  assumes "find (\<lambda>x. task_id x = i) (tasks s) = Some t"
  shows "updateTask (Some uid) (Ok ok) i (status_patch a c) s =
     Some (True, [UpdateTask i (dbUpdates (status_patch a c))],
           s\<lparr>tasks := map (\<lambda>x. if task_id x = i then x\<lparr>status := a, completedAt := c\<rparr> else x)
                          (tasks s)\<rparr>)"
  using assms
  by (simp add: updateTask_ok status_patch_merged patch_entry_status_patch)

text \<open>
  Claim C6. For a task that is in the cache, \<^verbatim>\<open>toggleTaskStatus\<close> is one call of
  \<^verbatim>\<open>updateTask\<close> with one update object. On a pending task that object carries
  \<^verbatim>\<open>status = completed\<close> and \<^verbatim>\<open>completedAt = now\<close> together: a signed-in user's
  successful toggle sends one request with both columns and changes the cache once, to
  a task that is completed at \<open>now\<close>. On a completed task the object carries
  \<^verbatim>\<open>status = pending\<close> and \<^verbatim>\<open>completedAt = null\<close>, in the same way.
\<close>

theorem toggleTaskStatus_one_update:
  assumes found: "find (\<lambda>x. task_id x = i) (tasks s) = Some t"
  shows "(status t = Pending \<longrightarrow>
            toggleTaskStatus user resp now i s =
              updateTask user resp i (status_patch Completed (Some now)) s \<and>
            toggleTaskStatus (Some uid) (Ok ()) now i s =
              Some (True, [UpdateTask i (dbUpdates (status_patch Completed (Some now)))],
                    s\<lparr>tasks := map (\<lambda>x. if task_id x = i
                                          then x\<lparr>status := Completed, completedAt := Some now\<rparr>
                                          else x) (tasks s)\<rparr>) \<and>
            upd_status (dbUpdates (status_patch Completed (Some now))) = Some Completed \<and>
            upd_completed_at (dbUpdates (status_patch Completed (Some now))) = Some (Some now)) \<and>
         (status t = Completed \<longrightarrow>
            toggleTaskStatus user resp now i s =
              updateTask user resp i (status_patch Pending None) s \<and>
            toggleTaskStatus (Some uid) (Ok ()) now i s =
              Some (True, [UpdateTask i (dbUpdates (status_patch Pending None))],
                    s\<lparr>tasks := map (\<lambda>x. if task_id x = i
                                          then x\<lparr>status := Pending, completedAt := None\<rparr>
                                          else x) (tasks s)\<rparr>) \<and>
            upd_status (dbUpdates (status_patch Pending None)) = Some Pending \<and>
            upd_completed_at (dbUpdates (status_patch Pending None)) = Some None)"
proof (intro conjI impI)
  assume "status t = Pending"
  with toggleTaskStatus_found [OF found]
  show "toggleTaskStatus user resp now i s =
      updateTask user resp i (status_patch Completed (Some now)) s"
    by simp
  then show "toggleTaskStatus (Some uid) (Ok ()) now i s =
      Some (True, [UpdateTask i (dbUpdates (status_patch Completed (Some now)))],
            s\<lparr>tasks := map (\<lambda>x. if task_id x = i
                                  then x\<lparr>status := Completed, completedAt := Some now\<rparr>
                                  else x) (tasks s)\<rparr>)"
    using \<open>status t = Pending\<close> toggleTaskStatus_found [OF found, of "Some uid" "Ok ()" now]
    by (simp add: updateTask_status_patch [OF found])
next
  assume "status t = Completed"
  with toggleTaskStatus_found [OF found]
  show "toggleTaskStatus user resp now i s = updateTask user resp i (status_patch Pending None) s"
    by simp
  show "toggleTaskStatus (Some uid) (Ok ()) now i s =
      Some (True, [UpdateTask i (dbUpdates (status_patch Pending None))],
            s\<lparr>tasks := map (\<lambda>x. if task_id x = i
                                  then x\<lparr>status := Pending, completedAt := None\<rparr>
                                  else x) (tasks s)\<rparr>)"
    using \<open>status t = Completed\<close> toggleTaskStatus_found [OF found, of "Some uid" "Ok ()" now]
    by (simp add: updateTask_status_patch [OF found])
qed (simp_all add: dbUpdates_status_patch)

theorem toggleTaskStatus_one_update_witness:
  "find (\<lambda>x. task_id x = ''t1'') (tasks store_A) = Some task_A \<and>
   status task_A = Pending \<and>
   toggleTaskStatus (Some ''u1'') (Ok ()) 3000 ''t1'' store_A =
     Some (True, [UpdateTask ''t1'' (dbUpdates (status_patch Completed (Some 3000)))],
           store_A\<lparr>tasks := [task_A_done]\<rparr>) \<and>
   find (\<lambda>x. task_id x = ''t1'') (tasks (store_A\<lparr>tasks := [task_A_done]\<rparr>)) = Some task_A_done \<and>
   status task_A_done = Completed \<and>
   toggleTaskStatus (Some ''u1'') (Ok ()) 4000 ''t1'' (store_A\<lparr>tasks := [task_A_done]\<rparr>) =
     Some (True, [UpdateTask ''t1'' (dbUpdates (status_patch Pending None))], store_A)"
proof -
  have f1: "find (\<lambda>x. task_id x = ''t1'') (tasks store_A) = Some task_A"
    by (simp add: store_A_def task_A_def)
  have p1: "status task_A = Pending"
    by (simp add: task_A_def)
  have f2: "find (\<lambda>x. task_id x = ''t1'') (tasks (store_A\<lparr>tasks := [task_A_done]\<rparr>)) = Some task_A_done"
    by (simp add: task_A_done_def task_A_def)
  have p2: "status task_A_done = Completed"
    by (simp add: task_A_done_def)
  have e1: "store_A\<lparr>tasks := map (\<lambda>x. if task_id x = ''t1''
                  then x\<lparr>status := Completed, completedAt := Some 3000\<rparr> else x) (tasks store_A)\<rparr>
          = store_A\<lparr>tasks := [task_A_done]\<rparr>"
    by (simp add: store_A_def task_A_done_def task_A_def)
  have e2: "(store_A\<lparr>tasks := [task_A_done]\<rparr>)\<lparr>tasks := map (\<lambda>x. if task_id x = ''t1''
                  then x\<lparr>status := Pending, completedAt := None\<rparr> else x)
                    (tasks (store_A\<lparr>tasks := [task_A_done]\<rparr>))\<rparr>
          = store_A"
    by (simp add: store_A_def task_A_done_def task_A_def)
  have t1: "toggleTaskStatus (Some ''u1'') (Ok ()) 3000 ''t1'' store_A =
      Some (True, [UpdateTask ''t1'' (dbUpdates (status_patch Completed (Some 3000)))],
            store_A\<lparr>tasks := map (\<lambda>x. if task_id x = ''t1''
                  then x\<lparr>status := Completed, completedAt := Some 3000\<rparr> else x) (tasks store_A)\<rparr>)"
    using toggleTaskStatus_one_update [OF f1, of "Some ''u1''" "Ok ()" 3000 "''u1''"] p1
    by blast
  have t2: "toggleTaskStatus (Some ''u1'') (Ok ()) 4000 ''t1'' (store_A\<lparr>tasks := [task_A_done]\<rparr>) =
      Some (True, [UpdateTask ''t1'' (dbUpdates (status_patch Pending None))],
            (store_A\<lparr>tasks := [task_A_done]\<rparr>)\<lparr>tasks := map (\<lambda>x. if task_id x = ''t1''
                  then x\<lparr>status := Pending, completedAt := None\<rparr> else x)
                    (tasks (store_A\<lparr>tasks := [task_A_done]\<rparr>))\<rparr>)"
    using toggleTaskStatus_one_update [OF f2, of "Some ''u1''" "Ok ()" 4000 "''u1''"] p2
    by blast
  from t1 [unfolded e1] t2 [unfolded e2] f1 p1 f2 p2 show ?thesis
    by (intro conjI)
qed

section \<open>The invariant of completedAt\<close>

lemma as_Task_status:
  "as_Task u = Some t' \<Longrightarrow> u_status u = Some (status t') \<and> u_completedAt u = Some (completedAt t')"
  by (auto simp: as_Task_def split: if_splits)

lemma completedAt_inv_patch:
  assumes inv: "completedAt_inv t" and agrees: "patch_agrees u"
    and typed: "full_replacement u \<longrightarrow> as_Task u \<noteq> None"
  shows "completedAt_inv (the (patch_entry u t))"
proof (cases "full_replacement u")
  case True
  with typed obtain t' where t': "as_Task u = Some t'" by auto
  from as_Task_status [OF t'] agrees have "completedAt_inv t'"
    by (simp add: patch_agrees_def completedAt_inv_def)
  with True t' show ?thesis by (simp add: patch_entry_def)
next
  case False
  from inv agrees have "completedAt_inv (spread t u)"
    by (auto simp: patch_agrees_def completedAt_inv_def spread_def key_or_def
        split: option.splits)
  with False show ?thesis by (simp add: patch_entry_def)
qed

lemma patch_agrees_status_patch:
  "patch_agrees (status_patch (if st = Pending then Completed else Pending)
     (if st = Pending then Some now else None))"
  by (simp add: patch_agrees_def status_patch_def no_updates_def)

lemma completedAt_inv_optimisticTask: "completedAt_inv (optimisticTask uuid now taskData)"
  by (simp add: completedAt_inv_def optimisticTask_def)

lemma completedAt_inv_dbToTask: "completedAt_inv (dbToTask row n) = row_inv row"
  by (simp add: completedAt_inv_def row_inv_def dbToTask_def)

lemma toggleTaskStatus_preserves:
  assumes all: "list_all P (tasks s)"
    and step: "\<And>t a c. t \<in> set (tasks s) \<Longrightarrow> P t \<Longrightarrow>
        (a = Completed \<and> c = Some now) \<or> (a = Pending \<and> c = None) \<Longrightarrow>
        P (t\<lparr>status := a, completedAt := c\<rparr>)"
  shows "\<exists>res. toggleTaskStatus user resp now i s = Some res \<and> list_all P (tasks (snd (snd res)))"
proof (cases "find (\<lambda>x. task_id x = i) (tasks s)")
  case None
  with all show ?thesis by (simp add: toggleTaskStatus_def)
next
  case (Some t)
  let ?a = "if status t = Pending then Completed else Pending"
  let ?c = "if status t = Pending then Some now else None"
  have "\<exists>res. updateTask user resp i (status_patch ?a ?c) s = Some res \<and>
          list_all P (tasks (snd (snd res)))"
  proof (rule updateTask_preserves)
    show "full_replacement (status_patch ?a ?c) \<longrightarrow> as_Task (status_patch ?a ?c) \<noteq> None"
      by (simp add: status_patch_merged)
    show "list_all P (tasks s)" by (rule all)
    fix x assume "x \<in> set (tasks s)" "P x"
    then show "P (the (patch_entry (status_patch ?a ?c) x))"
      unfolding patch_entry_status_patch by (rule step) simp
  qed
  with Some show ?thesis by (simp add: toggleTaskStatus_found)
qed

text \<open>
  Claim C7, as amended. In a cache all of whose tasks have \<^verbatim>\<open>completedAt\<close> set exactly
  when they are completed, the operations return a cache with the same property:
  the optimistic insert; \<^verbatim>\<open>addTask\<close> when it fails, and when it succeeds with a
  server record that has the property; \<^verbatim>\<open>toggleTaskStatus\<close>, whatever its outcome;
  \<^verbatim>\<open>updateTask\<close>, whatever its outcome, when the update object carries neither
  \<^verbatim>\<open>status\<close> nor \<^verbatim>\<open>completedAt\<close> or carries both in agreement (and is a whole task where
  it is taken for one).
\<close>

theorem completedAt_inv_preserved:
  assumes inv: "list_all completedAt_inv (tasks s)"
  shows "list_all completedAt_inv (tasks (addTaskOptimistic (optimisticTask uuid now taskData) s)) \<and>
         (\<exists>res. addTask user uuid now taskData (Failed e) prof s = Some res \<and>
            list_all completedAt_inv (tasks (snd (snd res)))) \<and>
         (row_inv data \<longrightarrow>
            (\<exists>res. addTask user uuid now taskData (Ok data) prof s = Some res \<and>
               list_all completedAt_inv (tasks (snd (snd res))))) \<and>
         (\<exists>res. toggleTaskStatus user resp now i s = Some res \<and>
            list_all completedAt_inv (tasks (snd (snd res)))) \<and>
         (patch_agrees updates \<and> (full_replacement updates \<longrightarrow> as_Task updates \<noteq> None) \<longrightarrow>
            (\<exists>res. updateTask user resp i updates s = Some res \<and>
               list_all completedAt_inv (tasks (snd (snd res)))))"
proof (intro conjI impI)
  from inv show "list_all completedAt_inv
      (tasks (addTaskOptimistic (optimisticTask uuid now taskData) s))"
    by (simp add: addTaskOptimistic_def completedAt_inv_optimisticTask)
next
  from inv show "\<exists>res. addTask user uuid now taskData (Failed e) prof s = Some res \<and>
      list_all completedAt_inv (tasks (snd (snd res)))"
    by (rule addTask_preserves) simp
next
  assume "row_inv data"
  with inv show "\<exists>res. addTask user uuid now taskData (Ok data) prof s = Some res \<and>
      list_all completedAt_inv (tasks (snd (snd res)))"
    by (intro addTask_preserves) (simp_all add: completedAt_inv_dbToTask)
next
  from inv show "\<exists>res. toggleTaskStatus user resp now i s = Some res \<and>
      list_all completedAt_inv (tasks (snd (snd res)))"
    by (rule toggleTaskStatus_preserves) (auto simp: completedAt_inv_def)
next
  assume "patch_agrees updates \<and> (full_replacement updates \<longrightarrow> as_Task updates \<noteq> None)"
  with inv show "\<exists>res. updateTask user resp i updates s = Some res \<and>
      list_all completedAt_inv (tasks (snd (snd res)))"
    by (intro updateTask_preserves) (auto intro: completedAt_inv_patch)
qed

theorem completedAt_inv_preserved_witness:
  "list_all completedAt_inv (tasks store_A) \<and> row_inv row_B \<and>
   patch_agrees title_B \<and> \<not> full_replacement title_B \<and>
   (\<exists>res. addTask (Some ''u1'') ''tmp1'' 2000 data_B (Ok row_B) None store_A = Some res \<and>
      list_all completedAt_inv (tasks (snd (snd res)))) \<and>
   (\<exists>res. toggleTaskStatus (Some ''u1'') (Ok ()) 2000 ''t1'' store_A = Some res \<and>
      list_all completedAt_inv (tasks (snd (snd res)))) \<and>
   (\<exists>res. updateTask (Some ''u1'') (Ok ()) ''t1'' title_B store_A = Some res \<and>
      list_all completedAt_inv (tasks (snd (snd res))))"
proof -
  have i: "list_all completedAt_inv (tasks store_A)"
    by (simp add: store_A_def task_A_def completedAt_inv_def)
  have r: "row_inv row_B"
    by (simp add: row_B_def row_inv_def)
  have u: "patch_agrees title_B" "\<not> full_replacement title_B"
    by (simp_all add: title_B_def no_updates_def patch_agrees_def full_replacement_def)
  from completedAt_inv_preserved [where s = store_A and uuid = "''tmp1''" and now = 2000
      and taskData = data_B and user = "Some ''u1''" and prof = None and data = row_B
      and resp = "Ok ()" and i = "''t1''" and updates = title_B, OF i] i r u
  show ?thesis by blast
qed

text \<open>
  Claim C7 as stated fails for \<^verbatim>\<open>updateTask\<close>: an update object that carries only
  \<^verbatim>\<open>status = completed\<close> is merged as it is, and the task is completed with
  \<^verbatim>\<open>completedAt = null\<close>.
\<close>

theorem status_only_update_breaks_invariant:
  "list_all completedAt_inv (tasks store_A) \<and>
   updateTask (Some ''u1'') (Ok ()) ''t1'' complete_only store_A
     = Some (True, [UpdateTask ''t1'' (dbUpdates complete_only)],
             store_A\<lparr>tasks := [task_A\<lparr>status := Completed\<rparr>]\<rparr>) \<and>
   \<not> list_all completedAt_inv (tasks (store_A\<lparr>tasks := [task_A\<lparr>status := Completed\<rparr>]\<rparr>))"
proof -
  have nf: "\<not> full_replacement complete_only"
    by (simp add: complete_only_def no_updates_def full_replacement_def)
  have sp: "spread task_A complete_only = task_A\<lparr>status := Completed\<rparr>"
    by (simp add: spread_def complete_only_def no_updates_def key_or_def opt_key_or_def task_A_def)
  have "updateTask (Some ''u1'') (Ok ()) ''t1'' complete_only store_A
     = Some (True, [UpdateTask ''t1'' (dbUpdates complete_only)],
             store_A\<lparr>tasks := [task_A\<lparr>status := Completed\<rparr>]\<rparr>)"
    using sp
    by (simp add: updateTask_def updateTaskOptimistic_merge [OF nf] store_A_def)
       (simp add: task_A_def)
  then show ?thesis
    by (simp add: store_A_def task_A_def completedAt_inv_def)
qed

section \<open>The scan of the Reminder Scheduler\<close>

lemma reminders_patch_merged: "\<not> full_replacement (no_updates\<lparr>u_reminders := Some rs\<rparr>)"
  by (simp add: full_replacement_def no_updates_def)

lemma spread_reminders: "spread t (no_updates\<lparr>u_reminders := Some rs\<rparr>) = t\<lparr>reminders := rs\<rparr>"
  by (simp add: spread_def no_updates_def key_or_def opt_key_or_def)

text \<open>\<open>triggerReminder\<close> always returns, with this state.\<close>

lemma triggerReminder_eq:
  "triggerReminder t reminder w =
     Some (w\<lparr>activeReminders :=
               (if list_ex (\<lambda>r. ar_id r = rem_id reminder) (activeReminders w)
                then activeReminders w
                else activeReminders w @
                  [\<lparr>ar_id = rem_id reminder, ar_taskId = task_id t, taskTitle = title t,
                    reminderTime = rem_time reminder, snoozeCount = 0\<rparr>]),
             desktop := (if permission w = Granted
                then desktop w @ [TaskReminderNotification (title t) (task_id t)]
                else desktop w),
             toasts := toasts w @ [TaskReminderToast (title t)],
             taskStore := (taskStore w)\<lparr>tasks :=
                map (\<lambda>x. if task_id x = task_id t
                          then x\<lparr>reminders := mark_triggered (rem_id reminder) (reminders t)\<rparr>
                          else x) (tasks (taskStore w))\<rparr>\<rparr>)"
  by (simp add: triggerReminder_def Let_def showNotification_def show_toast_def
      updateTaskOptimistic_merge [OF reminders_patch_merged] spread_reminders)

lemma trigger_all_append:
  "trigger_all (xs @ ys) w = (case trigger_all xs w of None \<Rightarrow> None | Some w' \<Rightarrow> trigger_all ys w')"
  by (induction xs arbitrary: w) (auto split: option.splits)

lemma check_reminders_of_eq:
  "status t \<noteq> Completed \<Longrightarrow>
     check_reminders_of now t rs w = trigger_all (map (Pair t) (filter (due_to_fire now t) rs)) w"
  by (induction rs arbitrary: w) (auto simp: due_to_fire_def split: option.splits)

lemma check_tasks_eq: "check_tasks now ts w = trigger_all (fires_by_spec now ts) w"
proof (induction ts arbitrary: w)
  case Nil
  show ?case by (simp add: fires_by_spec_def)
next
  case (Cons t ts)
  show ?case
  proof (cases "status t = Completed")
    case True
    then have "filter (due_to_fire now t) (reminders t) = []"
      by (simp add: due_to_fire_def)
    with True Cons show ?thesis by (simp add: fires_by_spec_def)
  next
    case False
    with Cons show ?thesis
      by (simp add: fires_by_spec_def trigger_all_append check_reminders_of_eq
          split: option.splits)
  qed
qed

lemma trigger_all_returns: "trigger_all xs w \<noteq> None"
  by (induction xs arbitrary: w) (auto simp: triggerReminder_eq)

lemma trigger_all_toasts:
  "trigger_all xs w = Some w' \<Longrightarrow>
     toasts w' = toasts w @ map (\<lambda>(t, r). TaskReminderToast (title t)) xs"
  by (induction xs arbitrary: w) (auto simp: triggerReminder_eq)

lemma in_fires_by_spec:
  "(t, r) \<in> set (fires_by_spec now ts) \<longleftrightarrow>
     t \<in> set ts \<and> r \<in> set (reminders t) \<and> due_to_fire now t r"
  by (auto simp: fires_by_spec_def)

text \<open>
  Claim C3. A scan at the time \<open>now\<close> returns, and it is the run of
  \<^verbatim>\<open>triggerReminder\<close> over the reminders that are due by the specification, in the
  order of the cache, each showing one toast: a reminder of a task of the cache fires on
  the scan exactly when the task is not completed, the reminder has not been triggered
  and its time \<open>t\<close> satisfies \<open>now - 60000 < t \<le> now\<close> (milliseconds).
\<close>

theorem checkReminders_fires_due:
  "checkReminders now w = trigger_all (fires_by_spec now (tasks (taskStore w))) w \<and>
   (\<exists>w'. checkReminders now w = Some w' \<and>
      toasts w' = toasts w @
        map (\<lambda>(t, r). TaskReminderToast (title t)) (fires_by_spec now (tasks (taskStore w)))) \<and>
   ((t, r) \<in> set (fires_by_spec now (tasks (taskStore w))) \<longleftrightarrow>
      t \<in> set (tasks (taskStore w)) \<and> r \<in> set (reminders t) \<and>
      status t \<noteq> Completed \<and> \<not> triggered r \<and> now - 60000 < rem_time r \<and> rem_time r \<le> now)"
proof -
  have run: "checkReminders now w = trigger_all (fires_by_spec now (tasks (taskStore w))) w"
    by (simp add: checkReminders_def check_tasks_eq)
  obtain w' where w': "trigger_all (fires_by_spec now (tasks (taskStore w))) w = Some w'"
    using trigger_all_returns [of "fires_by_spec now (tasks (taskStore w))" w] by auto
  from run w' trigger_all_toasts [OF w'] show ?thesis
    by (simp add: in_fires_by_spec due_to_fire_def)
qed

theorem checkReminders_fires_due_witness:
  "(task_scan, rem_1) \<in> set (fires_by_spec 100000 (tasks (taskStore (world_of [task_scan])))) \<and>
   rem_time rem_1 = 100000 - 30000 \<and>
   (task_scan, rem_old) \<notin> set (fires_by_spec 100000 (tasks (taskStore (world_of [task_scan])))) \<and>
   rem_time rem_old = 100000 - 90000 \<and>
   (task_scan, rem_ahead) \<notin> set (fires_by_spec 100000 (tasks (taskStore (world_of [task_scan])))) \<and>
   rem_time rem_ahead = 100000 + 10000 \<and>
   checkReminders 100000 (world_of [task_scan]) =
     trigger_all (fires_by_spec 100000 (tasks (taskStore (world_of [task_scan])))) (world_of [task_scan])"
proof -
  note scan = checkReminders_fires_due [where now = 100000 and w = "world_of [task_scan]"
      and t = task_scan]
  have cache: "tasks (taskStore (world_of [task_scan])) = [task_scan]"
    by (simp add: world_of_def)
  have rs: "reminders task_scan = [rem_1, rem_old, rem_ahead]" "status task_scan = Pending"
    by (simp_all add: task_scan_def task_A_def)
  have "(task_scan, rem_1) \<in> set (fires_by_spec 100000 (tasks (taskStore (world_of [task_scan]))))"
    using scan [where r = rem_1] by (simp add: cache rs) (simp add: rem_1_def)
  moreover have "(task_scan, rem_old) \<notin> set (fires_by_spec 100000 (tasks (taskStore (world_of [task_scan]))))"
    using scan [where r = rem_old] by (simp add: cache rs) (simp add: rem_old_def)
  moreover have "(task_scan, rem_ahead) \<notin> set (fires_by_spec 100000 (tasks (taskStore (world_of [task_scan]))))"
    using scan [where r = rem_ahead] by (simp add: cache rs) (simp add: rem_ahead_def)
  moreover have "rem_time rem_1 = 100000 - 30000" "rem_time rem_old = 100000 - 90000"
    "rem_time rem_ahead = 100000 + 10000"
    by (simp_all add: rem_1_def rem_old_def rem_ahead_def)
  ultimately show ?thesis using scan [where r = rem_1] by blast
qed

section \<open>Repeated scans\<close>

lemma list_ex_ar_id: "list_ex (\<lambda>a. ar_id a = i) xs \<longleftrightarrow> i \<in> ar_id ` set xs"
  by (induction xs) auto

lemma triggerReminder_active:
  assumes run: "triggerReminder t r w = Some w'"
    and d: "distinct (map ar_id (activeReminders w))"
  shows "distinct (map ar_id (activeReminders w')) \<and>
         rem_id r \<in> active_ids w' \<and> active_ids w \<subseteq> active_ids w'"
proof (cases "rem_id r \<in> ar_id ` set (activeReminders w)")
  case True
  with run have "activeReminders w' = activeReminders w"
    by (auto simp: triggerReminder_eq list_ex_ar_id)
  with True d show ?thesis by (simp add: active_ids_def)
next
  case False
  with run have "activeReminders w' = activeReminders w @
      [\<lparr>ar_id = rem_id r, ar_taskId = task_id t, taskTitle = title t,
        reminderTime = rem_time r, snoozeCount = 0\<rparr>]"
    by (auto simp: triggerReminder_eq list_ex_ar_id)
  with False d show ?thesis by (auto simp: active_ids_def)
qed

lemma trigger_all_active:
  assumes "trigger_all xs w = Some w'" "distinct (map ar_id (activeReminders w))"
  shows "distinct (map ar_id (activeReminders w')) \<and>
         (\<forall>x \<in> set xs. rem_id (snd x) \<in> active_ids w') \<and> active_ids w \<subseteq> active_ids w'"
  using assms
proof (induction xs arbitrary: w)
  case Nil
  then show ?case by simp
next
  case (Cons x xs)
  obtain t r where x: "x = (t, r)" by (cases x)
  from Cons.prems x obtain w1 where w1: "triggerReminder t r w = Some w1"
    and rest: "trigger_all xs w1 = Some w'"
    by (auto split: option.splits)
  from triggerReminder_active [OF w1 Cons.prems(2)]
  have d1: "distinct (map ar_id (activeReminders w1))"
    and in1: "rem_id r \<in> active_ids w1"
    and sub1: "active_ids w \<subseteq> active_ids w1"
    by simp_all
  from Cons.IH [OF rest d1]
  have d': "distinct (map ar_id (activeReminders w'))"
    and all': "\<forall>x \<in> set xs. rem_id (snd x) \<in> active_ids w'"
    and sub': "active_ids w1 \<subseteq> active_ids w'"
    by simp_all
  from in1 sub' have "rem_id (snd x) \<in> active_ids w'"
    unfolding x by auto
  with all' sub1 sub' d' show ?case by auto
qed

lemma filter_none: "a \<notin> f ` set xs \<Longrightarrow> filter (\<lambda>x. f x = a) xs = []"
  by (induction xs) auto

lemma once_in_distinct:
  "distinct (map f xs) \<Longrightarrow> a \<in> f ` set xs \<Longrightarrow> length (filter (\<lambda>x. f x = a) xs) = 1"
proof (induction xs)
  case Nil
  then show ?case by simp
next
  case (Cons x xs)
  show ?case
  proof (cases "f x = a")
    case True
    with Cons.prems have "a \<notin> f ` set xs" by auto
    with True show ?thesis by (simp add: filter_none)
  next
    case False
    with Cons show ?thesis by auto
  qed
qed

text \<open>
  On every cache the active reminders stay free of duplicate ids, so a reminder that has
  fired on a scan has exactly one entry after that scan and after the next one (no
  reminder being dismissed meanwhile).
\<close>

lemma scans_keep_one_active_entry:
  assumes d: "distinct (map ar_id (activeReminders w))"
    and s1: "checkReminders now w = Some w1"
    and s2: "checkReminders now' w1 = Some w2"
    and fired: "(t, r) \<in> set (fires_by_spec now (tasks (taskStore w)))"
  shows "length (filter (\<lambda>a. ar_id a = rem_id r) (activeReminders w1)) = 1 \<and>
         length (filter (\<lambda>a. ar_id a = rem_id r) (activeReminders w2)) = 1"
proof -
  from s1 have t1: "trigger_all (fires_by_spec now (tasks (taskStore w))) w = Some w1"
    by (simp add: checkReminders_def check_tasks_eq)
  from s2 have t2: "trigger_all (fires_by_spec now' (tasks (taskStore w1))) w1 = Some w2"
    by (simp add: checkReminders_def check_tasks_eq)
  from trigger_all_active [OF t1 d]
  have d1: "distinct (map ar_id (activeReminders w1))"
    and all1: "\<forall>x \<in> set (fires_by_spec now (tasks (taskStore w))). rem_id (snd x) \<in> active_ids w1"
    by simp_all
  from all1 fired have in1: "rem_id r \<in> active_ids w1"
    by (auto dest: bspec)
  from trigger_all_active [OF t2 d1]
  have d2: "distinct (map ar_id (activeReminders w2))"
    and sub2: "active_ids w1 \<subseteq> active_ids w2"
    by simp_all
  from in1 sub2 have in2: "rem_id r \<in> active_ids w2" by auto
  from d1 in1 d2 in2 show ?thesis
    by (simp add: once_in_distinct active_ids_def)
qed

lemma cache_world_of: "tasks (taskStore (world_of ts)) = ts"
  by (simp add: world_of_def)

lemma task_two_fields:
  "reminders task_two = [rem_1, rem_2]" "status task_two = Pending"
  "task_id task_two = ''t1''" "title task_two = ''A''"
  by (simp_all add: task_two_def task_A_def)

lemma task_two_1_fields:
  "reminders task_two_1 = [rem_1, rem_2\<lparr>triggered := True\<rparr>]" "status task_two_1 = Pending"
  "task_id task_two_1 = ''t1''" "title task_two_1 = ''A''"
  by (simp_all add: task_two_1_def task_A_def)

lemma mark_two:
  "mark_triggered (rem_id rem_1) [rem_1, rem_2] = [rem_1\<lparr>triggered := True\<rparr>, rem_2]"
  "mark_triggered (rem_id rem_2) [rem_1, rem_2] = [rem_1, rem_2\<lparr>triggered := True\<rparr>]"
  "mark_triggered (rem_id rem_1) [rem_1, rem_2\<lparr>triggered := True\<rparr>]
     = [rem_1\<lparr>triggered := True\<rparr>, rem_2\<lparr>triggered := True\<rparr>]"
  by (simp_all add: mark_triggered_def rem_1_def rem_2_def)

lemma fires_two: "fires_by_spec 80000 [task_two] = [(task_two, rem_1), (task_two, rem_2)]"
  by (simp add: fires_by_spec_def due_to_fire_def task_two_fields) (simp add: rem_1_def rem_2_def)

lemma fires_two_1: "fires_by_spec 110000 [task_two_1] = [(task_two_1, rem_1)]"
  by (simp add: fires_by_spec_def due_to_fire_def task_two_1_fields) (simp add: rem_1_def rem_2_def)

text \<open>
  Claim C4 at a task with two reminders that are due on the same scan. The second call
  of \<^verbatim>\<open>triggerReminder\<close> maps the reminders of the task object that the scan holds, in
  which the first reminder is not triggered, and writes them to the store: after the
  scan the first reminder is not triggered there. The next scan, thirty seconds later
  and within the window, fires it again and shows a third toast; the active reminders
  still have one entry for each id.
\<close>

theorem second_scan_fires_again:
  "checkReminders 80000 (world_of [task_two]) = Some world_two_1 \<and>
   tasks (taskStore world_two_1) = [task_two_1] \<and>
   map triggered (reminders task_two_1) = [False, True] \<and>
   fires_by_spec 110000 (tasks (taskStore world_two_1)) = [(task_two_1, rem_1)] \<and>
   checkReminders 110000 world_two_1 = Some world_two_2 \<and>
   toasts world_two_2 =
     [TaskReminderToast ''A'', TaskReminderToast ''A'', TaskReminderToast ''A''] \<and>
   map ar_id (activeReminders world_two_2) = [''r1'', ''r2'']"
proof -
  have s1: "checkReminders 80000 (world_of [task_two]) = Some world_two_1"
    by (simp add: checkReminders_def check_tasks_eq cache_world_of fires_two triggerReminder_eq
        task_two_fields mark_two)
       (simp add: world_of_def world_two_1_def active_1_def active_2_def rem_1_def rem_2_def
        task_two_def task_two_1_def)
  have c1: "tasks (taskStore world_two_1) = [task_two_1]"
    by (simp add: world_two_1_def world_of_def)
  have s2: "checkReminders 110000 world_two_1 = Some world_two_2"
    by (simp add: checkReminders_def check_tasks_eq c1 fires_two_1 triggerReminder_eq
        task_two_1_fields mark_two)
       (simp add: world_of_def world_two_1_def world_two_2_def active_1_def active_2_def
        rem_1_def task_two_1_def task_two_2_def)
  have rest: "map triggered (reminders task_two_1) = [False, True]"
    "toasts world_two_2 =
       [TaskReminderToast ''A'', TaskReminderToast ''A'', TaskReminderToast ''A'']"
    "map ar_id (activeReminders world_two_2) = [''r1'', ''r2'']"
    by (simp_all add: task_two_1_fields world_two_2_def world_of_def rem_1_def rem_2_def
        active_1_def active_2_def)
  from s1 c1 s2 rest fires_two_1 show ?thesis by (simp only: c1 simp_thms)
qed

section \<open>Snoozing\<close>

lemma clear_existing_fields:
  "taskStore (clear_existing rid w) = taskStore w"
  "activeReminders (clear_existing rid w) = activeReminders w"
  "snoozeIntervals (clear_existing rid w) = snoozeIntervals w"
  "nextHandle (clear_existing rid w) = nextHandle w"
  "toasts (clear_existing rid w) = toasts w"
  "desktop (clear_existing rid w) = desktop w"
  "permission (clear_existing rid w) = permission w"
  by (simp_all add: clear_existing_def clearTimeout_def split: option.split)

lemma clear_existing_timers:
  "\<exists>keep. timers (clear_existing rid w) = filter keep (timers w)"
proof (cases "map_of (snoozeIntervals w) rid")
  case None
  then have "timers (clear_existing rid w) = filter (\<lambda>_. True) (timers w)"
    by (simp add: clear_existing_def)
  then show ?thesis by blast
next
  case (Some h)
  show ?thesis
  proof (cases "h = 0")
    case True
    with Some have "timers (clear_existing rid w) = filter (\<lambda>_. True) (timers w)"
      by (simp add: clear_existing_def)
    then show ?thesis by blast
  next
    case False
    with Some have "timers (clear_existing rid w) = filter (\<lambda>t. handle t \<noteq> h) (timers w)"
      by (simp add: clear_existing_def clearTimeout_def)
    then show ?thesis by blast
  qed
qed

lemma clear_existing_ok:
  assumes ok: "timers_ok w"
  shows "timers_ok (clear_existing rid w)"
proof -
  obtain keep where k: "timers (clear_existing rid w) = filter keep (timers w)"
    using clear_existing_timers by blast
  from ok have "distinct (map handle (filter keep (timers w)))"
    by (simp add: timers_ok_def distinct_map_filter)
  moreover from ok have "list_all (\<lambda>t. 0 < handle t \<and> handle t < nextHandle w \<and>
       map_of (snoozeIntervals w) (ar_id (captured t)) = Some (handle t)) (filter keep (timers w))"
    by (auto simp: timers_ok_def list_all_iff)
  ultimately show ?thesis
    using ok by (simp add: timers_ok_def k clear_existing_fields)
qed

lemma clear_existing_none:
  assumes ok: "timers_ok w"
  shows "timers_for rid (clear_existing rid w) = []"
proof (cases "map_of (snoozeIntervals w) rid")
  case None
  with ok have "\<forall>t \<in> set (timers w). ar_id (captured t) \<noteq> rid"
    by (auto simp: timers_ok_def list_all_iff)
  with None show ?thesis
    by (simp add: timers_for_def clear_existing_def filter_empty_conv)
next
  case (Some h)
  from ok Some have reg: "\<forall>t \<in> set (timers w). ar_id (captured t) = rid \<longrightarrow> handle t = h \<and> 0 < h"
    by (auto simp: timers_ok_def list_all_iff)
  show ?thesis
  proof (cases "h = 0")
    case True
    with reg have "\<forall>t \<in> set (timers w). ar_id (captured t) \<noteq> rid" by auto
    with Some True show ?thesis
      by (simp add: timers_for_def clear_existing_def filter_empty_conv)
  next
    case False
    with Some reg show ?thesis
      by (auto simp: timers_for_def clear_existing_def clearTimeout_def filter_empty_conv)
  qed
qed

lemma list_all_update:
  "list_all (\<lambda>p. P (snd p)) al \<Longrightarrow> P v \<Longrightarrow> list_all (\<lambda>p. P (snd p)) (AList.update k v al)"
  by (induction al) auto

text \<open>The callback of the updater, for the entry that is snoozed.\<close>

lemma snooze_entry_match:
  assumes "ar_id a = rid"
  shows "snooze_entry now rid a w =
     (a\<lparr>snoozeCount := snoozeCount a + 1\<rparr>,
      (clear_existing rid w)
        \<lparr>timers := timers (clear_existing rid w) @
            [\<lparr>handle = nextHandle w, elapses = now + 300000, captured = a,
              capturedCount = snoozeCount a + 1\<rparr>],
         nextHandle := Suc (nextHandle w),
         snoozeIntervals := AList.update rid (nextHandle w) (snoozeIntervals w),
         toasts := toasts w @ [ReminderSnoozedToast]\<rparr>)"
  using assms
  by (simp add: snooze_entry_def Let_def setTimeout_def show_toast_def clear_existing_fields)

lemma snooze_entry_other: "ar_id r \<noteq> rid \<Longrightarrow> snooze_entry now rid r w = (r, w)"
  by (simp add: snooze_entry_def)

lemma snooze_entry_ok:
  assumes ok: "timers_ok w" and a: "ar_id a = rid"
  shows "timers_ok (snd (snooze_entry now rid a w)) \<and>
         timers_for rid (snd (snooze_entry now rid a w)) =
           [\<lparr>handle = nextHandle w, elapses = now + 300000, captured = a,
             capturedCount = snoozeCount a + 1\<rparr>]"
proof -
  let ?c = "clear_existing rid w"
  from ok have okc: "timers_ok ?c" by (rule clear_existing_ok)
  from ok have none: "timers_for rid ?c = []" by (rule clear_existing_none)
  have nh: "nextHandle ?c = nextHandle w" and si: "snoozeIntervals ?c = snoozeIntervals w"
    by (simp_all add: clear_existing_fields)
  from okc have old: "list_all (\<lambda>t. 0 < handle t \<and> handle t < nextHandle w \<and>
       map_of (snoozeIntervals w) (ar_id (captured t)) = Some (handle t)) (timers ?c)"
    and dist: "distinct (map handle (timers ?c))"
    and pos: "0 < nextHandle w"
    and reg: "list_all (\<lambda>p. snd p < nextHandle w) (snoozeIntervals w)"
    by (simp_all add: timers_ok_def nh si)
  from none have others: "\<forall>t \<in> set (timers ?c). ar_id (captured t) \<noteq> rid"
    by (simp add: timers_for_def filter_empty_conv)
  have fresh: "nextHandle w \<notin> handle ` set (timers ?c)"
    using old by (auto simp: list_all_iff)
  have old': "list_all (\<lambda>t. 0 < handle t \<and> handle t < Suc (nextHandle w) \<and>
       map_of (AList.update rid (nextHandle w) (snoozeIntervals w)) (ar_id (captured t))
         = Some (handle t)) (timers ?c)"
    using old others by (auto simp: list_all_iff update_conv')
  have reg': "list_all (\<lambda>p. snd p < Suc (nextHandle w))
       (AList.update rid (nextHandle w) (snoozeIntervals w))"
  proof (rule list_all_update)
    from reg show "list_all (\<lambda>p. snd p < Suc (nextHandle w)) (snoozeIntervals w)"
      by (auto simp: list_all_iff)
  qed simp
  show ?thesis
    using a pos dist fresh old' reg' none
    by (simp add: snooze_entry_match timers_ok_def timers_for_def update_conv')
qed

lemma snooze_entry_fields:
  "taskStore (snd (snooze_entry now rid r w)) = taskStore w"
  "activeReminders (snd (snooze_entry now rid r w)) = activeReminders w"
  by (cases "ar_id r = rid"; simp add: snooze_entry_match snooze_entry_other clear_existing_fields)+

lemma snooze_entry_nextHandle:
  "ar_id a = rid \<Longrightarrow> nextHandle (snd (snooze_entry now rid a w)) = Suc (nextHandle w)"
  by (simp add: snooze_entry_match)

lemma snooze_map_absent:
  "rid \<notin> ar_id ` set rs \<Longrightarrow> snooze_map now rid rs w = (rs, w)"
  by (induction rs arbitrary: w) (auto simp: snooze_entry_other)

lemma snooze_map_found:
  assumes "distinct (map ar_id rs)" "find (\<lambda>r. ar_id r = rid) rs = Some a"
  shows "snooze_map now rid rs w = (map (bump rid) rs, snd (snooze_entry now rid a w))"
  using assms
proof (induction rs arbitrary: w)
  case Nil
  then show ?case by simp
next
  case (Cons r rs)
  show ?case
  proof (cases "ar_id r = rid")
    case True
    with Cons.prems have a: "a = r" and absent: "rid \<notin> ar_id ` set rs"
      by auto
    from absent have "map (bump rid) rs = map (\<lambda>x. x) rs"
      by (intro map_cong) (auto simp: bump_def)
    moreover from True have "bump rid r = r\<lparr>snoozeCount := snoozeCount r + 1\<rparr>"
      by (simp add: bump_def)
    ultimately show ?thesis
      using True a absent by (simp add: snooze_map_absent snooze_entry_match)
  next
    case False
    then have "bump rid r = r" by (simp add: bump_def)
    with False Cons show ?thesis
      by (simp add: snooze_entry_other)
  qed
qed

lemma snoozeReminder_found:
  assumes "distinct (map ar_id (activeReminders w))"
    "find (\<lambda>r. ar_id r = rid) (activeReminders w) = Some a"
  shows "snoozeReminder now rid w =
     (snd (snooze_entry now rid a w))\<lparr>activeReminders := map (bump rid) (activeReminders w)\<rparr>"
  using assms by (simp add: snoozeReminder_def snooze_map_found)

lemma find_bump:
  "find (\<lambda>r. ar_id r = rid) rs = Some a \<Longrightarrow>
     find (\<lambda>r. ar_id r = rid) (map (bump rid) rs) = Some (a\<lparr>snoozeCount := snoozeCount a + 1\<rparr>)"
  by (induction rs) (auto simp: bump_def)

lemma ar_id_bump: "map ar_id (map (bump rid) rs) = map ar_id rs"
  by (induction rs) (auto simp: bump_def)

lemma snooze_map_store:
  "taskStore (snd (snooze_map now rid rs w)) = taskStore w"
proof (induction rs arbitrary: w)
  case Nil
  show ?case by simp
next
  case (Cons r rs)
  obtain r' w' where e: "snooze_entry now rid r w = (r', w')"
    by (cases "snooze_entry now rid r w")
  obtain rs' w'' where m: "snooze_map now rid rs w' = (rs', w'')"
    by (cases "snooze_map now rid rs w'")
  from Cons [of w'] m have "taskStore w'' = taskStore w'" by simp
  moreover from snooze_entry_fields(1) [of now rid r w] e have "taskStore w' = taskStore w"
    by simp
  ultimately show ?case using e m by simp
qed

lemma snoozeReminder_store: "taskStore (snoozeReminder now rid w) = taskStore w"
proof -
  obtain rs w' where m: "snooze_map now rid (activeReminders w) w = (rs, w')"
    by (cases "snooze_map now rid (activeReminders w) w")
  with snooze_map_store [of now rid "activeReminders w" w] show ?thesis
    by (simp add: snoozeReminder_def)
qed

lemma timers_ok_active: "timers_ok (w\<lparr>activeReminders := rs\<rparr>) = timers_ok w"
  by (simp add: timers_ok_def)

lemma timers_for_active: "timers_for rid (w\<lparr>activeReminders := rs\<rparr>) = timers_for rid w"
  by (simp add: timers_for_def)

lemma at_most_one_timer:
  assumes ok: "timers_ok w"
  shows "length (timers_for rid w) \<le> 1"
proof -
  have reg: "map_of (snoozeIntervals w) rid = Some (handle t)" if "t \<in> set (timers_for rid w)" for t
    using ok that by (auto simp: timers_ok_def timers_for_def list_all_iff)
  from ok have dist: "distinct (map handle (timers_for rid w))"
    by (simp add: timers_ok_def timers_for_def distinct_map_filter)
  show ?thesis
  proof (cases "timers_for rid w")
    case Nil
    then show ?thesis by simp
  next
    case (Cons x xs)
    show ?thesis
    proof (cases xs)
      case Nil
      with Cons show ?thesis by simp
    next
      case (Cons y ys)
      with \<open>timers_for rid w = x # xs\<close> reg [of x] reg [of y] have "handle x = handle y"
        by simp
      with dist Cons \<open>timers_for rid w = x # xs\<close> show ?thesis by simp
    qed
  qed
qed

lemma snoozeReminder_step:
  assumes ok: "timers_ok w" and d: "distinct (map ar_id (activeReminders w))"
    and a: "find (\<lambda>r. ar_id r = rid) (activeReminders w) = Some a"
  shows "timers_for rid (snoozeReminder now rid w) =
           [\<lparr>handle = nextHandle w, elapses = now + 300000, captured = a,
             capturedCount = snoozeCount a + 1\<rparr>]"
    and "timers_ok (snoozeReminder now rid w)"
    and "nextHandle (snoozeReminder now rid w) = Suc (nextHandle w)"
    and "distinct (map ar_id (activeReminders (snoozeReminder now rid w)))"
    and "map ar_id (activeReminders (snoozeReminder now rid w)) = map ar_id (activeReminders w)"
    and "find (\<lambda>r. ar_id r = rid) (activeReminders (snoozeReminder now rid w))
           = Some (a\<lparr>snoozeCount := snoozeCount a + 1\<rparr>)"
proof -
  from a have id: "ar_id a = rid" by (auto simp: find_Some_iff)
  note run = snoozeReminder_found [OF d a, of now]
  from snooze_entry_ok [OF ok id, of now]
  show "timers_for rid (snoozeReminder now rid w) =
           [\<lparr>handle = nextHandle w, elapses = now + 300000, captured = a,
             capturedCount = snoozeCount a + 1\<rparr>]"
    and "timers_ok (snoozeReminder now rid w)"
    by (simp_all add: run timers_ok_active timers_for_active)
  show "nextHandle (snoozeReminder now rid w) = Suc (nextHandle w)"
    by (simp add: run snooze_entry_nextHandle [OF id])
  show "map ar_id (activeReminders (snoozeReminder now rid w)) = map ar_id (activeReminders w)"
    by (simp add: run ar_id_bump del: map_map)
  with d show "distinct (map ar_id (activeReminders (snoozeReminder now rid w)))"
    by simp
  from find_bump [OF a]
  show "find (\<lambda>r. ar_id r = rid) (activeReminders (snoozeReminder now rid w))
           = Some (a\<lparr>snoozeCount := snoozeCount a + 1\<rparr>)"
    by (simp add: run)
qed

text \<open>
  Claim C8. In a state whose pending timeouts are the registered ones, an active
  reminder \<open>a\<close> that is snoozed twice, no timeout elapsing in between, is left with
  exactly one pending timeout, the one set by the second snooze (the first has been
  cleared), and with its \<^verbatim>\<open>snoozeCount\<close> raised by two, to 2 for a reminder that had
  just fired. No reminder has more than one pending timeout afterwards, the timeouts
  are again the registered ones, and the store of the tasks, with every reminder's
  \<^verbatim>\<open>triggered\<close> flag, is as before.
\<close>

theorem snooze_twice:
  assumes ok: "timers_ok w" and d: "distinct (map ar_id (activeReminders w))"
    and a: "find (\<lambda>r. ar_id r = rid) (activeReminders w) = Some a"
  shows "(let w1 = snoozeReminder now1 rid w; w2 = snoozeReminder now2 rid w1 in
     timers_for rid w1 =
       [\<lparr>handle = nextHandle w, elapses = now1 + 300000, captured = a,
         capturedCount = snoozeCount a + 1\<rparr>] \<and>
     timers_for rid w2 =
       [\<lparr>handle = Suc (nextHandle w), elapses = now2 + 300000,
         captured = a\<lparr>snoozeCount := snoozeCount a + 1\<rparr>,
         capturedCount = snoozeCount a + 2\<rparr>] \<and>
     find (\<lambda>r. ar_id r = rid) (activeReminders w2) = Some (a\<lparr>snoozeCount := snoozeCount a + 2\<rparr>) \<and>
     map ar_id (activeReminders w2) = map ar_id (activeReminders w) \<and>
     taskStore w1 = taskStore w \<and> taskStore w2 = taskStore w \<and>
     timers_ok w1 \<and> timers_ok w2 \<and>
     (\<forall>rid'. length (timers_for rid' w2) \<le> 1))"
proof -
  let ?w1 = "snoozeReminder now1 rid w"
  let ?w2 = "snoozeReminder now2 rid ?w1"
  let ?a1 = "a\<lparr>snoozeCount := snoozeCount a + 1\<rparr>"
  note one = snoozeReminder_step [OF ok d a, of now1]
  note two = snoozeReminder_step [OF one(2) one(4) one(6), of now2]
  have t1: "timers_for rid ?w1 =
       [\<lparr>handle = nextHandle w, elapses = now1 + 300000, captured = a,
         capturedCount = snoozeCount a + 1\<rparr>]"
    by (rule one(1))
  have t2: "timers_for rid ?w2 =
       [\<lparr>handle = Suc (nextHandle w), elapses = now2 + 300000, captured = ?a1,
         capturedCount = snoozeCount a + 2\<rparr>]"
    using two(1) by (simp add: one(3))
  have c2: "find (\<lambda>r. ar_id r = rid) (activeReminders ?w2) = Some (a\<lparr>snoozeCount := snoozeCount a + 2\<rparr>)"
    using two(6) by simp
  have ids: "map ar_id (activeReminders ?w2) = map ar_id (activeReminders w)"
    using two(5) one(5) by simp
  have st: "taskStore ?w1 = taskStore w" "taskStore ?w2 = taskStore w"
    by (simp_all add: snoozeReminder_store)
  have most: "\<forall>rid'. length (timers_for rid' ?w2) \<le> 1"
    using at_most_one_timer [OF two(2)] by blast
  from t1 t2 c2 ids st one(2) two(2) most show ?thesis
    by (simp only: Let_def simp_thms)
qed

theorem snooze_twice_witness:
  "timers_ok world_two_2 \<and> distinct (map ar_id (activeReminders world_two_2)) \<and>
   find (\<lambda>r. ar_id r = ''r1'') (activeReminders world_two_2) = Some active_1 \<and>
   snoozeCount active_1 = 0 \<and>
   length (timers_for ''r1''
     (snoozeReminder 125000 ''r1'' (snoozeReminder 120000 ''r1'' world_two_2))) = 1 \<and>
   map snoozeCount (filter (\<lambda>r. ar_id r = ''r1'')
     (activeReminders (snoozeReminder 125000 ''r1'' (snoozeReminder 120000 ''r1'' world_two_2))))
     = [2] \<and>
   taskStore (snoozeReminder 125000 ''r1'' (snoozeReminder 120000 ''r1'' world_two_2))
     = taskStore world_two_2"
proof -
  have ok: "timers_ok world_two_2"
    by (simp add: timers_ok_def world_two_2_def world_of_def)
  have d: "distinct (map ar_id (activeReminders world_two_2))"
    by (simp add: world_two_2_def world_of_def active_1_def active_2_def)
  have a: "find (\<lambda>r. ar_id r = ''r1'') (activeReminders world_two_2) = Some active_1"
    by (simp add: world_two_2_def world_of_def active_1_def)
  have c: "snoozeCount active_1 = 0"
    by (simp add: active_1_def)
  let ?w2 = "snoozeReminder 125000 ''r1'' (snoozeReminder 120000 ''r1'' world_two_2)"
  from snooze_twice [OF ok d a, of 120000 125000]
  have t: "length (timers_for ''r1'' ?w2) = 1"
    and f: "find (\<lambda>r. ar_id r = ''r1'') (activeReminders ?w2) = Some (active_1\<lparr>snoozeCount := 2\<rparr>)"
    and ids: "map ar_id (activeReminders ?w2) = map ar_id (activeReminders world_two_2)"
    and st: "taskStore ?w2 = taskStore world_two_2"
    by (simp_all add: Let_def c)
  from ids have "map ar_id (activeReminders ?w2) = [''r1'', ''r2'']"
    by (simp add: world_two_2_def world_of_def active_1_def active_2_def)
  then obtain x y where xy: "activeReminders ?w2 = [x, y]" "ar_id x = ''r1''" "ar_id y = ''r2''"
    by auto
  with f have "x = active_1\<lparr>snoozeCount := 2\<rparr>" by simp
  with xy have "map snoozeCount (filter (\<lambda>r. ar_id r = ''r1'') (activeReminders ?w2)) = [2]"
    by simp
  with ok d a c t st show ?thesis by (intro conjI)
qed

section \<open>The registered timeouts in every state of the hook\<close>

text \<open>
  \<open>timers_ok\<close> holds when the hook starts and is kept by every operation of the
  hook, so that no reminder ever has two pending timeouts.
\<close>

lemma timers_ok_start: "timers_ok (world_of ts)"
  by (simp add: timers_ok_def world_of_def)

lemma snoozeReminder_ok:
  assumes ok: "timers_ok w" and d: "distinct (map ar_id (activeReminders w))"
  shows "timers_ok (snoozeReminder now rid w)"
proof (cases "find (\<lambda>r. ar_id r = rid) (activeReminders w)")
  case None
  then have "rid \<notin> ar_id ` set (activeReminders w)"
    by (auto simp: find_None_iff)
  then have "snoozeReminder now rid w = w\<lparr>activeReminders := activeReminders w\<rparr>"
    by (simp add: snoozeReminder_def snooze_map_absent)
  with ok show ?thesis by (simp add: timers_ok_active)
next
  case (Some a)
  with ok d show ?thesis by (rule snoozeReminder_step(2))
qed

lemma set_delete: "set (AList.delete k al) \<subseteq> set al"
  by (induction al) auto

lemma dismissReminder_ok:
  assumes ok: "timers_ok w"
  shows "timers_ok (dismissReminder rid w)"
proof (cases "map_of (snoozeIntervals w) rid")
  case None
  with ok show ?thesis
    by (simp add: dismissReminder_def Let_def show_toast_def timers_ok_def)
next
  case (Some h)
  show ?thesis
  proof (cases "h = 0")
    case True
    with Some ok show ?thesis
      by (simp add: dismissReminder_def Let_def show_toast_def timers_ok_def)
  next
    case False
    from ok Some have mine: "\<forall>t \<in> set (timers w). ar_id (captured t) = rid \<longrightarrow> handle t = h"
      by (auto simp: timers_ok_def list_all_iff)
    from ok have reg: "list_all (\<lambda>p. snd p < nextHandle w) (AList.delete rid (snoozeIntervals w))"
      using set_delete [of rid "snoozeIntervals w"] by (auto simp: timers_ok_def list_all_iff)
    from ok mine have old: "list_all (\<lambda>t. 0 < handle t \<and> handle t < nextHandle w \<and>
        map_of (AList.delete rid (snoozeIntervals w)) (ar_id (captured t)) = Some (handle t))
        (filter (\<lambda>t. handle t \<noteq> h) (timers w))"
      by (auto simp: timers_ok_def list_all_iff delete_conv')
    from ok have "distinct (map handle (filter (\<lambda>t. handle t \<noteq> h) (timers w)))"
      by (simp add: timers_ok_def distinct_map_filter)
    with Some False ok reg old show ?thesis
      by (simp add: dismissReminder_def Let_def show_toast_def clearTimeout_def timers_ok_def)
  qed
qed

lemma timeout_elapsed_ok:
  assumes ok: "timers_ok w"
  shows "timers_ok (timeout_elapsed t w)"
proof -
  from ok have "distinct (map handle (filter (\<lambda>x. handle x \<noteq> handle t) (timers w)))"
    by (simp add: timers_ok_def distinct_map_filter)
  moreover from ok have "list_all (\<lambda>t. 0 < handle t \<and> handle t < nextHandle w \<and>
      map_of (snoozeIntervals w) (ar_id (captured t)) = Some (handle t))
      (filter (\<lambda>x. handle x \<noteq> handle t) (timers w))"
    by (auto simp: timers_ok_def list_all_iff)
  ultimately show ?thesis
    using ok
    by (simp add: timeout_elapsed_def Let_def show_toast_def showNotification_def timers_ok_def)
qed

lemma trigger_all_timers:
  "trigger_all xs w = Some w' \<Longrightarrow>
     timers w' = timers w \<and> snoozeIntervals w' = snoozeIntervals w \<and> nextHandle w' = nextHandle w"
  by (induction xs arbitrary: w) (auto simp: triggerReminder_eq)

lemma checkReminders_ok:
  assumes "timers_ok w" "checkReminders now w = Some w'"
  shows "timers_ok w'"
proof -
  from assms(2) have "trigger_all (fires_by_spec now (tasks (taskStore w))) w = Some w'"
    by (simp add: checkReminders_def check_tasks_eq)
  from trigger_all_timers [OF this] assms(1) show ?thesis
    by (simp add: timers_ok_def)
qed

section \<open>Sorting by due date\<close>

lemma set_sort_insert: "set (sort_insert cmp x ys) = insert x (set ys)"
  by (induction ys) auto

lemma set_array_sort: "set (array_sort cmp xs) = set xs"
  by (induction xs) (simp_all add: array_sort_def set_sort_insert)

lemma length_sort_insert: "length (sort_insert cmp x ys) = Suc (length ys)"
  by (induction ys) auto

lemma length_array_sort: "length (array_sort cmp xs) = length xs"
  by (induction xs) (simp_all add: array_sort_def length_sort_insert)

text \<open>
  Insertion keeps a list sorted for a transitive relation that the comparator decides:
  \<open>x\<close> goes before \<open>y\<close> only if \<open>R x y\<close>, and after it only if \<open>R y x\<close>.
\<close>

lemma sorted_sort_insert:
  assumes before: "\<And>a b. \<not> js_gt0 (cmp a b) \<Longrightarrow> R a b"
    and after: "\<And>a b. js_gt0 (cmp a b) \<Longrightarrow> R b a"
    and trans: "\<And>a b c. R a b \<Longrightarrow> R b c \<Longrightarrow> R a c"
  shows "sorted_wrt R ys \<Longrightarrow> sorted_wrt R (sort_insert cmp x ys)"
proof (induction ys)
  case Nil
  show ?case by simp
next
  case (Cons y ys)
  show ?case
  proof (cases "js_gt0 (cmp x y)")
    case True
    from Cons have "sorted_wrt R (sort_insert cmp x ys)" by simp
    moreover from True have "R y x" by (rule after)
    ultimately show ?thesis
      using True Cons.prems by (auto simp: set_sort_insert)
  next
    case False
    then have xy: "R x y" by (rule before)
    have "R x z" if "z \<in> set ys" for z
      using xy Cons.prems that by (auto intro: trans)
    with xy False Cons.prems show ?thesis by auto
  qed
qed

lemma sorted_array_sort:
  assumes "\<And>a b. \<not> js_gt0 (cmp a b) \<Longrightarrow> R a b"
    and "\<And>a b. js_gt0 (cmp a b) \<Longrightarrow> R b a"
    and "\<And>a b c. R a b \<Longrightarrow> R b c \<Longrightarrow> R a c"
  shows "sorted_wrt R (array_sort cmp xs)"
proof (induction xs)
  case Nil
  show ?case by (simp add: array_sort_def)
next
  case (Cons x xs)
  from assms Cons have "sorted_wrt R (sort_insert cmp x (array_sort cmp xs))"
    by (rule sorted_sort_insert)
  then show ?case by (simp add: array_sort_def)
qed

lemma due_le_trans: "due_le a b \<Longrightarrow> due_le b c \<Longrightarrow> due_le a c"
  by (auto simp: due_le_def split: option.splits)

lemma due_asc_before: "\<not> js_gt0 (js_sub (due_time a) (due_time b)) \<Longrightarrow> due_le a b"
  by (auto simp: due_le_def due_time_def split: option.splits)

lemma due_asc_after: "js_gt0 (js_sub (due_time a) (due_time b)) \<Longrightarrow> due_le b a"
  by (auto simp: due_le_def due_time_def split: option.splits)

lemma due_desc_before: "\<not> js_gt0 (js_neg (js_sub (due_time a) (due_time b))) \<Longrightarrow> due_le b a"
  by (auto simp: due_le_def due_time_def split: option.splits)

lemma due_desc_after: "js_gt0 (js_neg (js_sub (due_time a) (due_time b))) \<Longrightarrow> due_le a b"
  by (auto simp: due_le_def due_time_def split: option.splits)

lemma sorted_due_asc:
  assumes "sortBy f = SortDueDate" "sortOrder f = Asc"
  shows "sorted_wrt due_le (array_sort (compare_tasks lc f) xs)"
proof (rule sorted_array_sort)
  fix a b c
  show "\<not> js_gt0 (compare_tasks lc f a b) \<Longrightarrow> due_le a b"
    using assms by (simp add: compare_tasks_def due_asc_before)
  show "js_gt0 (compare_tasks lc f a b) \<Longrightarrow> due_le b a"
    using assms by (simp add: compare_tasks_def due_asc_after)
  show "due_le a b \<Longrightarrow> due_le b c \<Longrightarrow> due_le a c"
    by (rule due_le_trans)
qed

lemma sorted_due_desc:
  assumes "sortBy f = SortDueDate" "sortOrder f = Desc"
  shows "sorted_wrt (\<lambda>a b. due_le b a) (array_sort (compare_tasks lc f) xs)"
proof (rule sorted_array_sort)
  fix a b c
  show "\<not> js_gt0 (compare_tasks lc f a b) \<Longrightarrow> due_le b a"
    using assms by (simp add: compare_tasks_def due_desc_before)
  show "js_gt0 (compare_tasks lc f a b) \<Longrightarrow> due_le a b"
    using assms by (simp add: compare_tasks_def due_desc_after)
  show "due_le b a \<Longrightarrow> due_le c b \<Longrightarrow> due_le c a"
    by (rule due_le_trans)
qed

lemma getFilteredTasks_subset: "set (getFilteredTasks toLower lc s) \<subseteq> set (tasks s)"
  by (auto simp: getFilteredTasks_def Let_def set_array_sort)

lemma getFilteredTasks_all:
  assumes "f_priority (filters s) = None" "f_status (filters s) = None"
    "f_category (filters s) = ''all''" "f_search (filters s) = []"
  shows "getFilteredTasks toLower lc s = array_sort (compare_tasks lc (filters s)) (tasks s)"
  using assms by (simp add: getFilteredTasks_def)

lemma nulls_last: "due_le a b \<Longrightarrow> dueDate a = None \<longrightarrow> dueDate b = None"
  by (auto simp: due_le_def split: option.splits)

text \<open>
  Claim C5, as amended. The tasks that \<^verbatim>\<open>getFilteredTasks\<close> returns are tasks of the
  cache, all of them when no filter is set. Sorted by due date in ascending order, they
  are in the order of their due dates with \<^verbatim>\<open>null\<close> as the greatest value, so that
  no task with a due date comes after a task without one. In descending order the whole
  order is reversed: the tasks without a due date come first, and no task without a due
  date comes after a task with one.
\<close>

theorem due_date_sort_nulls:
  "set (getFilteredTasks toLower lc s) \<subseteq> set (tasks s) \<and>
   (f_priority (filters s) = None \<and> f_status (filters s) = None \<and>
    f_category (filters s) = ''all'' \<and> f_search (filters s) = [] \<longrightarrow>
      set (getFilteredTasks toLower lc s) = set (tasks s) \<and>
      length (getFilteredTasks toLower lc s) = length (tasks s)) \<and>
   (sortBy (filters s) = SortDueDate \<and> sortOrder (filters s) = Asc \<longrightarrow>
      sorted_wrt due_le (getFilteredTasks toLower lc s) \<and>
      sorted_wrt (\<lambda>a b. dueDate a = None \<longrightarrow> dueDate b = None) (getFilteredTasks toLower lc s)) \<and>
   (sortBy (filters s) = SortDueDate \<and> sortOrder (filters s) = Desc \<longrightarrow>
      sorted_wrt (\<lambda>a b. due_le b a) (getFilteredTasks toLower lc s) \<and>
      sorted_wrt (\<lambda>a b. dueDate b = None \<longrightarrow> dueDate a = None) (getFilteredTasks toLower lc s))"
proof (intro conjI impI)
  show "set (getFilteredTasks toLower lc s) \<subseteq> set (tasks s)"
    by (rule getFilteredTasks_subset)
next
  assume "f_priority (filters s) = None \<and> f_status (filters s) = None \<and>
    f_category (filters s) = ''all'' \<and> f_search (filters s) = []"
  then have all: "getFilteredTasks toLower lc s = array_sort (compare_tasks lc (filters s)) (tasks s)"
    by (intro getFilteredTasks_all) simp_all
  show "set (getFilteredTasks toLower lc s) = set (tasks s)"
    by (simp add: all set_array_sort)
  show "length (getFilteredTasks toLower lc s) = length (tasks s)"
    by (simp add: all length_array_sort)
next
  assume asc: "sortBy (filters s) = SortDueDate \<and> sortOrder (filters s) = Asc"
  then show sorted: "sorted_wrt due_le (getFilteredTasks toLower lc s)"
    by (simp add: getFilteredTasks_def Let_def sorted_due_asc)
  show "sorted_wrt (\<lambda>a b. dueDate a = None \<longrightarrow> dueDate b = None) (getFilteredTasks toLower lc s)"
    using sorted by (rule sorted_wrt_mono_rel [rotated]) (rule nulls_last)
next
  assume desc: "sortBy (filters s) = SortDueDate \<and> sortOrder (filters s) = Desc"
  then show sorted: "sorted_wrt (\<lambda>a b. due_le b a) (getFilteredTasks toLower lc s)"
    by (simp add: getFilteredTasks_def Let_def sorted_due_desc)
  show "sorted_wrt (\<lambda>a b. dueDate b = None \<longrightarrow> dueDate a = None) (getFilteredTasks toLower lc s)"
    using sorted by (rule sorted_wrt_mono_rel [rotated]) (rule nulls_last)
qed

lemma sort_NA_asc: "getFilteredTasks same_case no_collation (store_NA Asc) = [task_A, task_N]"
  by (simp add: getFilteredTasks_def store_NA_def store_A_def defaultFilters_def array_sort_def
      compare_tasks_def due_time_def task_N_def task_A_def)

lemma sort_NA_desc: "getFilteredTasks same_case no_collation (store_NA Desc) = [task_N, task_A]"
  by (simp add: getFilteredTasks_def store_NA_def store_A_def defaultFilters_def array_sort_def
      compare_tasks_def due_time_def task_N_def task_A_def)

theorem due_date_sort_nulls_witness:
  "sortBy (filters (store_NA Asc)) = SortDueDate \<and> sortOrder (filters (store_NA Asc)) = Asc \<and>
   sorted_wrt (\<lambda>a b. dueDate a = None \<longrightarrow> dueDate b = None)
     (getFilteredTasks same_case no_collation (store_NA Asc)) \<and>
   getFilteredTasks same_case no_collation (store_NA Asc) = [task_A, task_N] \<and>
   sortBy (filters (store_NA Desc)) = SortDueDate \<and> sortOrder (filters (store_NA Desc)) = Desc \<and>
   sorted_wrt (\<lambda>a b. dueDate b = None \<longrightarrow> dueDate a = None)
     (getFilteredTasks same_case no_collation (store_NA Desc)) \<and>
   getFilteredTasks same_case no_collation (store_NA Desc) = [task_N, task_A] \<and>
   dueDate task_N = None \<and> dueDate task_A = Some 5000"
proof -
  have f: "sortBy (filters (store_NA ord)) = SortDueDate" "sortOrder (filters (store_NA ord)) = ord"
    for ord
    by (simp_all add: store_NA_def defaultFilters_def)
  have d: "dueDate task_N = None" "dueDate task_A = Some 5000"
    by (simp_all add: task_N_def task_A_def)
  from due_date_sort_nulls [of same_case no_collation "store_NA Asc"] f
  have a: "sorted_wrt (\<lambda>a b. dueDate a = None \<longrightarrow> dueDate b = None)
     (getFilteredTasks same_case no_collation (store_NA Asc))"
    by simp
  from due_date_sort_nulls [of same_case no_collation "store_NA Desc"] f
  have b: "sorted_wrt (\<lambda>a b. dueDate b = None \<longrightarrow> dueDate a = None)
     (getFilteredTasks same_case no_collation (store_NA Desc))"
    by simp
  from a b f d sort_NA_asc sort_NA_desc show ?thesis by (intro conjI)
qed

text \<open>
  Claim C5 as stated fails in descending order: the comparison is negated, the task
  without a due date compares as the least and is put before the task with one.
\<close>

theorem descending_sort_puts_null_first:
  "sortBy (filters (store_NA Desc)) = SortDueDate \<and> sortOrder (filters (store_NA Desc)) = Desc \<and>
   tasks (store_NA Desc) = [task_N, task_A] \<and>
   dueDate task_N = None \<and> dueDate task_A = Some 5000 \<and>
   getFilteredTasks same_case no_collation (store_NA Desc) = [task_N, task_A] \<and>
   \<not> sorted_wrt (\<lambda>a b. dueDate a = None \<longrightarrow> dueDate b = None)
       (getFilteredTasks same_case no_collation (store_NA Desc))"
proof -
  have "\<not> sorted_wrt (\<lambda>a b. dueDate a = None \<longrightarrow> dueDate b = None) [task_N, task_A]"
    by (simp add: task_N_def task_A_def)
  then show ?thesis
    by (simp add: sort_NA_desc) (simp add: store_NA_def defaultFilters_def task_N_def task_A_def)
qed

section \<open>Where reminders come from\<close>

lemma reminders_optimisticTask: "reminders (optimisticTask uuid now taskData) = []"
  by (simp add: optimisticTask_def)

lemma reminders_dbToTask: "reminders (dbToTask row n) = []"
  by (simp add: dbToTask_def)

lemma fetchTasks_tasks:
  "tasks (fetchTasks user resp profiles s) = tasks s \<or>
   list_all (\<lambda>t. reminders t = []) (tasks (fetchTasks user resp profiles s))"
  by (cases user; cases resp)
     (simp_all add: fetchTasks_def setTasks_def setLoading_def setInitialized_def Let_def
        list_all_iff reminders_dbToTask)

lemma fetchTasks_reload:
  "list_all (\<lambda>t. reminders t = []) (tasks (fetchTasks (Some uid) (Ok rows) profiles s))"
  by (simp add: fetchTasks_def setTasks_def setLoading_def setInitialized_def Let_def
      list_all_iff reminders_dbToTask)

lemma fires_none:
  "list_all (\<lambda>t. reminders t = []) ts \<Longrightarrow> fires_by_spec now ts = []"
  by (induction ts) (simp_all add: fires_by_spec_def)

lemma reminders_merge:
  assumes "u_reminders u = None" "\<not> full_replacement u"
  shows "reminders (the (patch_entry u t)) = reminders t"
  using assms by (simp add: patch_entry_def spread_def key_or_def)

lemma updateTask_reminders:
  assumes "find (\<lambda>x. task_id x = i) (tasks s) = Some t"
  shows "updateTask (Some uid) (Ok ok) i (no_updates\<lparr>u_reminders := Some rs\<rparr>) s =
     Some (True, [UpdateTask i (dbUpdates (no_updates\<lparr>u_reminders := Some rs\<rparr>))],
           s\<lparr>tasks := map (\<lambda>x. if task_id x = i then x\<lparr>reminders := rs\<rparr> else x) (tasks s)\<rparr>)"
  using assms
  by (simp add: updateTask_ok reminders_patch_merged patch_entry_def spread_reminders)

text \<open>
  Claim C10. The optimistic entry of \<^verbatim>\<open>addTask\<close> has no reminders, whatever the caller
  supplies, and no task made by \<^verbatim>\<open>dbToTask\<close> has any: every task that \<^verbatim>\<open>addTask\<close>
  leaves in the cache was there before or has no reminders, and after a full reload no
  task has reminders. A cache without reminders stays without them under \<^verbatim>\<open>addTask\<close>,
  \<^verbatim>\<open>deleteTask\<close>, \<^verbatim>\<open>toggleTaskStatus\<close>, \<^verbatim>\<open>fetchTasks\<close>, a scan of the scheduler (which
  then changes nothing), and an \<^verbatim>\<open>updateTask\<close> that merges an object without the key
  \<^verbatim>\<open>reminders\<close>; the merge of an object with that key puts its reminders in the task.
\<close>

theorem reminders_only_by_update:
  "reminders (optimisticTask uuid now (taskData\<lparr>d_reminders := Some rs\<rparr>)) = [] \<and>
   reminders (dbToTask row n) = [] \<and>
   (\<exists>res. addTask user uuid now taskData resp prof s = Some res \<and>
      list_all (\<lambda>t. t \<in> set (tasks s) \<or> reminders t = []) (tasks (snd (snd res)))) \<and>
   list_all (\<lambda>t. reminders t = []) (tasks (fetchTasks (Some uid) (Ok rows) profiles s)) \<and>
   (list_all (\<lambda>t. reminders t = []) (tasks s) \<longrightarrow>
      (\<exists>res. addTask user uuid now taskData resp prof s = Some res \<and>
         list_all (\<lambda>t. reminders t = []) (tasks (snd (snd res)))) \<and>
      list_all (\<lambda>t. reminders t = []) (tasks (snd (snd (deleteTask user uresp i s)))) \<and>
      (\<exists>res. toggleTaskStatus user uresp now i s = Some res \<and>
         list_all (\<lambda>t. reminders t = []) (tasks (snd (snd res)))) \<and>
      list_all (\<lambda>t. reminders t = []) (tasks (fetchTasks user fresp profiles s)) \<and>
      (taskStore w = s \<longrightarrow> checkReminders now w = Some w) \<and>
      (u_reminders updates = None \<and> \<not> full_replacement updates \<longrightarrow>
         (\<exists>res. updateTask user uresp i updates s = Some res \<and>
            list_all (\<lambda>t. reminders t = []) (tasks (snd (snd res)))))) \<and>
   (find (\<lambda>x. task_id x = i) (tasks s) = Some t \<longrightarrow>
      updateTask (Some uid) (Ok ()) i (no_updates\<lparr>u_reminders := Some rs\<rparr>) s =
        Some (True, [UpdateTask i (dbUpdates (no_updates\<lparr>u_reminders := Some rs\<rparr>))],
              s\<lparr>tasks := map (\<lambda>x. if task_id x = i then x\<lparr>reminders := rs\<rparr> else x) (tasks s)\<rparr>))"
proof (intro conjI impI)
  show "reminders (optimisticTask uuid now (taskData\<lparr>d_reminders := Some rs\<rparr>)) = []"
    by (rule reminders_optimisticTask)
  show "reminders (dbToTask row n) = []"
    by (rule reminders_dbToTask)
  show "\<exists>res. addTask user uuid now taskData resp prof s = Some res \<and>
      list_all (\<lambda>t. t \<in> set (tasks s) \<or> reminders t = []) (tasks (snd (snd res)))"
    by (rule addTask_preserves) (simp_all add: list_all_iff reminders_dbToTask)
  show "list_all (\<lambda>t. reminders t = []) (tasks (fetchTasks (Some uid) (Ok rows) profiles s))"
    by (rule fetchTasks_reload)
next
  assume none: "list_all (\<lambda>t. reminders t = []) (tasks s)"
  then show "\<exists>res. addTask user uuid now taskData resp prof s = Some res \<and>
      list_all (\<lambda>t. reminders t = []) (tasks (snd (snd res)))"
    by (rule addTask_preserves) (simp add: reminders_dbToTask)
  from none show "list_all (\<lambda>t. reminders t = []) (tasks (snd (snd (deleteTask user uresp i s))))"
    by (rule deleteTask_preserves)
  from none show "\<exists>res. toggleTaskStatus user uresp now i s = Some res \<and>
      list_all (\<lambda>t. reminders t = []) (tasks (snd (snd res)))"
    by (rule toggleTaskStatus_preserves) simp
  from none fetchTasks_tasks [of user fresp profiles s]
  show "list_all (\<lambda>t. reminders t = []) (tasks (fetchTasks user fresp profiles s))"
    by auto
  {
    assume "taskStore w = s"
    with none show "checkReminders now w = Some w"
      by (simp add: checkReminders_def check_tasks_eq fires_none)
  }
  {
    assume u: "u_reminders updates = None \<and> \<not> full_replacement updates"
    with none show "\<exists>res. updateTask user uresp i updates s = Some res \<and>
        list_all (\<lambda>t. reminders t = []) (tasks (snd (snd res)))"
      by (intro updateTask_preserves) (simp_all add: reminders_merge)
  }
next
  assume "find (\<lambda>x. task_id x = i) (tasks s) = Some t"
  then show "updateTask (Some uid) (Ok ()) i (no_updates\<lparr>u_reminders := Some rs\<rparr>) s =
        Some (True, [UpdateTask i (dbUpdates (no_updates\<lparr>u_reminders := Some rs\<rparr>))],
              s\<lparr>tasks := map (\<lambda>x. if task_id x = i then x\<lparr>reminders := rs\<rparr> else x) (tasks s)\<rparr>)"
    by (rule updateTask_reminders)
qed

theorem reminders_only_by_update_witness:
  "list_all (\<lambda>t. reminders t = []) (tasks store_A) \<and>
   u_reminders title_B = None \<and> \<not> full_replacement title_B \<and>
   find (\<lambda>x. task_id x = ''t1'') (tasks store_A) = Some task_A \<and>
   reminders (optimisticTask ''tmp1'' 2000 (data_B\<lparr>d_reminders := Some [rem_1]\<rparr>)) = [] \<and>
   (\<exists>res. addTask (Some ''u1'') ''tmp1'' 2000 data_B (Ok row_B) None store_A = Some res \<and>
      list_all (\<lambda>t. reminders t = []) (tasks (snd (snd res)))) \<and>
   checkReminders 2000 (world_of [task_A]) = Some (world_of [task_A]) \<and>
   (\<exists>res. updateTask (Some ''u1'') (Ok ()) ''t1'' title_B store_A = Some res \<and>
      list_all (\<lambda>t. reminders t = []) (tasks (snd (snd res)))) \<and>
   updateTask (Some ''u1'') (Ok ()) ''t1'' (no_updates\<lparr>u_reminders := Some [rem_1]\<rparr>) store_A =
     Some (True, [UpdateTask ''t1'' (dbUpdates (no_updates\<lparr>u_reminders := Some [rem_1]\<rparr>))],
           store_A\<lparr>tasks := [task_A\<lparr>reminders := [rem_1]\<rparr>]\<rparr>)"
proof -
  have none: "list_all (\<lambda>t. reminders t = []) (tasks store_A)"
    by (simp add: store_A_def task_A_def)
  have u: "u_reminders title_B = None" "\<not> full_replacement title_B"
    by (simp_all add: title_B_def no_updates_def full_replacement_def)
  have f: "find (\<lambda>x. task_id x = ''t1'') (tasks store_A) = Some task_A"
    by (simp add: store_A_def task_A_def)
  have w: "taskStore (world_of [task_A]) = store_A"
    by (simp add: world_of_def store_A_def)
  have m: "store_A\<lparr>tasks := map (\<lambda>x. if task_id x = ''t1'' then x\<lparr>reminders := [rem_1]\<rparr> else x)
               (tasks store_A)\<rparr> = store_A\<lparr>tasks := [task_A\<lparr>reminders := [rem_1]\<rparr>]\<rparr>"
    by (simp add: store_A_def task_A_def)
  note inst = reminders_only_by_update [where s = store_A and uuid = "''tmp1''" and now = 2000
      and taskData = data_B and rs = "[rem_1]" and user = "Some ''u1''" and resp = "Ok row_B"
      and prof = None and uresp = "Ok ()" and i = "''t1''" and updates = title_B
      and w = "world_of [task_A]" and t = task_A and uid = "''u1''"]
  from inst none u f w show ?thesis
    unfolding m [symmetric] by blast
qed

end
